theory Spec2Isabelle
  imports Main "HOL-Library.Word"
begin

unbundle bit_operations_syntax

section \<open>The ramdisk file system of KallistiOS (kernel/fs/fs_ramdisk.c)\<close>

text \<open>
  A shallow embedding of \<^verbatim>\<open>fs_ramdisk.c\<close>. The module keeps its state in static
  variables and in heap objects; the model passes that state explicitly, as a record
  \<open>rd_state\<close>. Conventions:

  \<^item> A pointer to an \<open>rd_file_t\<close> or to an \<open>rd_fd_t\<close> is a natural number, \<open>0\<close> being
    \<open>NULL\<close>. The two kinds of object live in two heaps, \<open>nodes\<close> and \<open>fds\<close>; address
    \<open>Suc i\<close> is cell \<open>i\<close> of the heap. \<open>malloc\<close> of an object appends a cell, so it
    never hands out an address twice. The operations store through a pointer only
    after they have tested it, so a store through \<open>NULL\<close> does not occur and
    \<open>set_node\<close>, \<open>set_fd\<close> and \<open>free_node\<close> leave the state alone there.
  \<^item> \<open>free\<close> of an \<open>rd_file_t\<close> empties its cell (reading it afterwards is the fault
    \<open>BadAccess\<close>). \<open>free\<close> of an \<open>rd_fd_t\<close> leaves the cell as \<open>ramdisk_close\<close> left it,
    with \<open>file = NULL\<close>. In C, reading a released \<open>rd_fd_t\<close> has no defined behaviour, so
    what the model computes for a handle that has been closed says nothing about the
    code; the results below are about live handles and about \<open>NULL\<close>.
  \<^item> The intrusive \<open>LIST_ENTRY\<close> links of the children of a directory are the list of
    their addresses, kept in the directory's \<open>data\<close> (the \<open>rd_dir_t\<close>); the head of
    the list is \<open>LIST_FIRST\<close>. A \<open>rd_dir_t *\<close> is passed around as the address of
    the directory node that owns it.
  \<^item> A data block is kept by value in the node (\<open>Block\<close>), its length being the size
    of the allocation. Bytes of a fresh allocation are unspecified in C; the model
    makes them \<open>0\<close>.
  \<^item> \<open>malloc\<close>, \<open>calloc\<close>, \<open>strdup\<close> and \<open>realloc\<close> may fail: \<open>heap_plan\<close> lists the
    outcomes of the coming requests in order (\<open>False\<close> a failure); once the list is
    used up every request succeeds.
  \<^item> \<open>uint32_t\<close> and \<open>size_t\<close> are 32 bits wide (the code casts pointers to
    \<open>uint32_t\<close>), \<open>off_t\<close>, \<open>ssize_t\<close> and \<open>int\<close> are 32-bit two's complement. Unsigned
    values are \<open>nat\<close> with the wrap-around written out (\<open>wrap32\<close>, \<open>u32\<close>); a signed
    result is read off an unsigned one by \<open>s32\<close>. The usage count is an \<open>int\<close> which
    the model does not wrap.
  \<^item> Dereferencing \<open>NULL\<close>, a failing \<open>assert\<close> and an access outside an allocation
    are results of their own (\<open>fault\<close>), the left summand of every operation's result.
  \<^item> \<open>errno\<close> is a field of the state; \<open>None\<close> is a value this module has not set.
  \<^item> Every operation holds \<open>rd_mutex\<close> from start to end, so operations do not
    interleave; the model is sequential.
\<close>

subsection \<open>Machine integers\<close>

definition wrap32 :: "nat \<Rightarrow> nat" where
  "wrap32 n = n mod 2 ^ 32"

definition u32 :: "int \<Rightarrow> nat" where
  "u32 x = nat (x mod 2 ^ 32)"

definition s32 :: "nat \<Rightarrow> int" where
  "s32 n = (if n mod 2 ^ 32 < 2 ^ 31 then int (n mod 2 ^ 32) else int (n mod 2 ^ 32) - 2 ^ 32)"

subsection \<open>Data model\<close>

type_synonym byte = "8 word"

datatype fault = NullDeref | AssertFail | BadAccess

datatype errno_t = ENOENT | EISDIR | EINVAL | ENOMEM | EBADF | ENOSPC | EBUSY

datatype rd_data = NullData | Block "byte list" | DirList "nat list"

record rd_file =
  name :: string
  fsize :: nat
  isdir :: bool
  openfor :: int
  usage :: int
  data :: rd_data
  datasize :: nat

definition OPENFOR_NOTHING :: int where "OPENFOR_NOTHING = 0"
definition OPENFOR_READ :: int where "OPENFOR_READ = 1"
definition OPENFOR_WRITE :: int where "OPENFOR_WRITE = 2"

record dirent_t =
  d_size :: int
  d_name :: string
  d_time :: int
  d_attr :: int

record rd_fd =
  filep :: nat
  dir :: bool
  ptr :: nat
  dirent :: dirent_t
  omode :: int

record rd_state =
  nodes :: "rd_file option list"
  fds :: "rd_fd list"
  rd_fd_queue :: "nat list"
  root :: nat
  errno :: "errno_t option"
  heap_plan :: "bool list"

definition rd_blksize :: nat where
  "rd_blksize = 1024"

definition rd_dev :: nat where
  "rd_dev = of_char CHR ''r'' + of_char CHR ''a'' * 2 ^ 8 + of_char CHR ''m'' * 2 ^ 16"

text \<open>
  Modelled from the spec: the flag constants of \<^verbatim>\<open>fcntl.h\<close> and \<^verbatim>\<open>kos/fs.h\<close> are not
  among the sources. The spec names the modes (read-only, write-only, read-write;
  append, truncate; directory requested); the values are those of the KallistiOS
  headers.
\<close>

definition O_RDONLY :: int where "O_RDONLY = 0"
definition O_WRONLY :: int where "O_WRONLY = 1"
definition O_RDWR :: int where "O_RDWR = 2"
definition O_APPEND :: int where "O_APPEND = 8"
definition O_MODE_MASK :: int where "O_MODE_MASK = 15"
definition O_TRUNC :: int where "O_TRUNC = 1024"
definition O_DIR :: int where "O_DIR = 4096"

text \<open>
  Modelled from the spec: the \<open>whence\<close> constants of \<^verbatim>\<open>stdio.h\<close> are not among the
  sources; the spec names them set, cur and end.
\<close>

definition SEEK_SET :: int where "SEEK_SET = 0"
definition SEEK_CUR :: int where "SEEK_CUR = 1"
definition SEEK_END :: int where "SEEK_END = 2"

subsection \<open>The two heaps and the allocator\<close>

definition node_at :: "rd_state \<Rightarrow> nat \<Rightarrow> rd_file option" where
  "node_at st a = (case a of 0 \<Rightarrow> None
     | Suc i \<Rightarrow> if i < length (nodes st) then nodes st ! i else None)"

definition set_node :: "nat \<Rightarrow> rd_file \<Rightarrow> rd_state \<Rightarrow> rd_state" where
  "set_node a f st = (case a of 0 \<Rightarrow> st
     | Suc i \<Rightarrow> st\<lparr>nodes := (nodes st)[i := Some f]\<rparr>)"

definition free_node :: "nat \<Rightarrow> rd_state \<Rightarrow> rd_state" where
  "free_node a st = (case a of 0 \<Rightarrow> st
     | Suc i \<Rightarrow> st\<lparr>nodes := (nodes st)[i := None]\<rparr>)"

definition new_node :: "rd_file \<Rightarrow> rd_state \<Rightarrow> nat \<times> rd_state" where
  "new_node f st = (Suc (length (nodes st)), st\<lparr>nodes := nodes st @ [Some f]\<rparr>)"

definition fd_zero :: rd_fd where
  "fd_zero = \<lparr>filep = 0, dir = False, ptr = 0,
     dirent = \<lparr>d_size = 0, d_name = [], d_time = 0, d_attr = 0\<rparr>, omode = 0\<rparr>"

text \<open>Reading through a handle that was never handed out gives an all-zero descriptor.\<close>

definition fd_at :: "rd_state \<Rightarrow> nat \<Rightarrow> rd_fd" where
  "fd_at st h = (case h of 0 \<Rightarrow> fd_zero
     | Suc i \<Rightarrow> if i < length (fds st) then fds st ! i else fd_zero)"

definition set_fd :: "nat \<Rightarrow> rd_fd \<Rightarrow> rd_state \<Rightarrow> rd_state" where
  "set_fd h fd st = (case h of 0 \<Rightarrow> st
     | Suc i \<Rightarrow> st\<lparr>fds := (fds st)[i := fd]\<rparr>)"

definition new_fd :: "rd_fd \<Rightarrow> rd_state \<Rightarrow> nat \<times> rd_state" where
  "new_fd fd st = (Suc (length (fds st)), st\<lparr>fds := fds st @ [fd]\<rparr>)"

text \<open>One allocation request: its outcome, and the state with the request consumed.\<close>

definition malloc_ok :: "rd_state \<Rightarrow> bool \<times> rd_state" where
  "malloc_ok st = (case heap_plan st of [] \<Rightarrow> (True, st)
     | b # bs \<Rightarrow> (b, st\<lparr>heap_plan := bs\<rparr>))"

definition set_errno :: "errno_t \<Rightarrow> rd_state \<Rightarrow> rd_state" where
  "set_errno e st = st\<lparr>errno := Some e\<rparr>"

text \<open>\<open>realloc(p, n)\<close>: the old bytes up to \<open>n\<close>, then fresh ones.\<close>

definition realloc_block :: "rd_data \<Rightarrow> nat \<Rightarrow> rd_data" where
  "realloc_block d n = (case d of
       Block blk \<Rightarrow> Block (take n blk @ replicate (n - length blk) 0)
     | _ \<Rightarrow> Block (replicate n 0))"

text \<open>\<open>memcpy(data + p, buf, length buf)\<close> into a node's block.\<close>

definition store_bytes :: "rd_data \<Rightarrow> nat \<Rightarrow> byte list \<Rightarrow> fault + rd_data" where
  "store_bytes d p buf = (case d of
       NullData \<Rightarrow> if buf = [] then Inr NullData else Inl NullDeref
     | Block blk \<Rightarrow>
         if p + length buf \<le> length blk
         then Inr (Block (take p blk @ buf @ drop (p + length buf) blk))
         else Inl BadAccess
     | DirList cs \<Rightarrow> Inl BadAccess)"

text \<open>\<open>memcpy(buf, data + p, n)\<close> out of a node's block.\<close>

definition load_bytes :: "rd_data \<Rightarrow> nat \<Rightarrow> nat \<Rightarrow> fault + byte list" where
  "load_bytes d p n = (case d of
       NullData \<Rightarrow> if n = 0 then Inr [] else Inl NullDeref
     | Block blk \<Rightarrow>
         if p + n \<le> length blk then Inr (take n (drop p blk)) else Inl BadAccess
     | DirList cs \<Rightarrow> Inl BadAccess)"

subsection \<open>Descriptor operations\<close>

definition ramdisk_fd_invalid :: "rd_state \<Rightarrow> nat \<Rightarrow> bool" where
  "ramdisk_fd_invalid st h = (h = 0 \<or> filep (fd_at st h) = 0)"

text \<open>\<open>ramdisk_close\<close>: the result is the returned \<open>int\<close>.\<close>

definition ramdisk_close :: "rd_state \<Rightarrow> nat \<Rightarrow> fault + (int \<times> rd_state)" where
  "ramdisk_close st h =
    (if ramdisk_fd_invalid st h then Inr (0, set_errno EBADF st)
     else
       let fd = fd_at st h; f = filep fd; st1 = set_fd h (fd\<lparr>filep := 0\<rparr>) st in
       (case node_at st1 f of
          None \<Rightarrow> Inl BadAccess
        | Some nf \<Rightarrow>
            let nf1 = nf\<lparr>usage := usage nf - 1\<rparr> in
            if usage nf1 < 0 then Inl AssertFail
            else
              let nf2 = (if usage nf1 = 0 then nf1\<lparr>openfor := OPENFOR_NOTHING\<rparr> else nf1);
                  st2 = set_node f nf2 st1
              in if h \<notin> set (rd_fd_queue st2) then Inl NullDeref
                 else Inr (0, st2\<lparr>rd_fd_queue := removeAll h (rd_fd_queue st2)\<rparr>)))"

text \<open>
  \<open>ramdisk_read\<close>: the result is the returned \<open>ssize_t\<close> and the bytes copied to the
  caller's buffer.
\<close>

definition ramdisk_read :: "rd_state \<Rightarrow> nat \<Rightarrow> nat \<Rightarrow> fault + ((int \<times> byte list) \<times> rd_state)" where
  "ramdisk_read st h bytes =
    (if ramdisk_fd_invalid st h \<or> dir (fd_at st h) then Inr ((- 1, []), set_errno EBADF st)
     else
       let fd = fd_at st h in
       (case node_at st (filep fd) of
          None \<Rightarrow> Inl BadAccess
        | Some nf \<Rightarrow>
            let n = (if wrap32 (ptr fd + bytes) > fsize nf
                     then u32 (int (fsize nf) - int (ptr fd)) else bytes)
            in (case load_bytes (data nf) (ptr fd) n of
                  Inl e \<Rightarrow> Inl e
                | Inr out \<Rightarrow>
                    Inr ((s32 n, out), set_fd h (fd\<lparr>ptr := wrap32 (ptr fd + n)\<rparr>) st))))"

text \<open>
  \<open>ramdisk_write\<close>: \<open>buf\<close> is the \<open>bytes\<close> bytes at the caller's pointer, so
  \<open>bytes = length buf\<close>.
\<close>

definition ramdisk_write :: "rd_state \<Rightarrow> nat \<Rightarrow> byte list \<Rightarrow> fault + (int \<times> rd_state)" where
  "ramdisk_write st h buf =
    (if ramdisk_fd_invalid st h \<or> dir (fd_at st h) then Inr (- 1, set_errno EBADF st)
     else
       let fd = fd_at st h; bytes = length buf in
       (case node_at st (filep fd) of
          None \<Rightarrow> Inl BadAccess
        | Some nf \<Rightarrow>
            if openfor nf \<noteq> OPENFOR_WRITE then Inr (- 1, set_errno EBADF st)
            else
              let grow = (wrap32 (ptr fd + bytes) > datasize nf);
                  (ok, st1) = (if grow then malloc_ok st else (True, st))
              in if \<not> ok then Inr (- 1, set_errno ENOSPC st1)
                 else
                   let cap = wrap32 (wrap32 (ptr fd + bytes) + rd_blksize * 4);
                       nf1 = (if grow then nf\<lparr>data := realloc_block (data nf) cap, datasize := cap\<rparr>
                              else nf)
                   in (case store_bytes (data nf1) (ptr fd) buf of
                         Inl e \<Rightarrow> Inl e
                       | Inr d \<Rightarrow>
                           let p = wrap32 (ptr fd + bytes);
                               nf2 = nf1\<lparr>data := d\<rparr>;
                               nf3 = (if fsize nf2 < p then nf2\<lparr>fsize := p\<rparr> else nf2)
                           in Inr (s32 bytes,
                                   set_node (filep fd) nf3 (set_fd h (fd\<lparr>ptr := p\<rparr>) st1)))))"

text \<open>
  The \<open>switch\<close> of \<open>ramdisk_seek\<close>: the new value of \<open>fd->ptr\<close> before the bounds
  check, or \<open>None\<close> where the code sets \<open>EINVAL\<close> and returns \<open>-1\<close>.
\<close>

definition seek_switch :: "rd_state \<Rightarrow> rd_fd \<Rightarrow> int \<Rightarrow> int \<Rightarrow> fault + nat option" where
  "seek_switch st fd offset whence =
    (if whence = SEEK_SET then
       (if offset < 0 then Inr None else Inr (Some (u32 offset)))
     else if whence = SEEK_CUR then
       (if offset < 0 \<and> u32 (- offset) > ptr fd then Inr None
        else Inr (Some (u32 (int (ptr fd) + offset))))
     else if whence = SEEK_END then
       (case node_at st (filep fd) of
          None \<Rightarrow> Inl BadAccess
        | Some nf \<Rightarrow>
            if offset < 0 \<and> u32 (- offset) > fsize nf then Inr None
            else Inr (Some (u32 (int (fsize nf) + offset))))
     else Inr None)"

definition ramdisk_seek :: "rd_state \<Rightarrow> nat \<Rightarrow> int \<Rightarrow> int \<Rightarrow> fault + (int \<times> rd_state)" where
  "ramdisk_seek st h offset whence =
    (if ramdisk_fd_invalid st h \<or> dir (fd_at st h) then Inr (- 1, set_errno EBADF st)
     else
       let fd = fd_at st h in
       (case seek_switch st fd offset whence of
          Inl e \<Rightarrow> Inl e
        | Inr None \<Rightarrow> Inr (- 1, set_errno EINVAL st)
        | Inr (Some p) \<Rightarrow>
            (case node_at st (filep fd) of
               None \<Rightarrow> Inl BadAccess
             | Some nf \<Rightarrow>
                 let p1 = (if p > fsize nf then fsize nf else p)
                 in Inr (s32 p1, set_fd h (fd\<lparr>ptr := p1\<rparr>) st))))"

definition ramdisk_tell :: "rd_state \<Rightarrow> nat \<Rightarrow> int \<times> rd_state" where
  "ramdisk_tell st h =
    (if ramdisk_fd_invalid st h \<or> dir (fd_at st h) then (- 1, set_errno EBADF st)
     else (s32 (ptr (fd_at st h)), st))"

text \<open>\<open>ramdisk_total\<close> returns a \<open>size_t\<close>: its \<open>-1\<close> is \<open>2 ^ 32 - 1\<close>.\<close>

definition ramdisk_total :: "rd_state \<Rightarrow> nat \<Rightarrow> fault + (nat \<times> rd_state)" where
  "ramdisk_total st h =
    (if ramdisk_fd_invalid st h \<or> dir (fd_at st h) then Inr (u32 (- 1), set_errno EBADF st)
     else (case node_at st (filep (fd_at st h)) of
             None \<Rightarrow> Inl BadAccess
           | Some nf \<Rightarrow> Inr (fsize nf, st)))"

subsection \<open>Names and paths\<close>

definition tolower :: "char \<Rightarrow> char" where
  "tolower c = (let n = (of_char c :: nat) in
     if 65 \<le> n \<and> n \<le> 90 then char_of (n + 32) else c)"

text \<open>
  \<open>strncasecmp(a, b, n) == 0\<close> for strings \<open>a\<close> and \<open>b\<close> (the characters before the
  terminating NUL).
\<close>

definition strncasecmp0 :: "string \<Rightarrow> string \<Rightarrow> nat \<Rightarrow> bool" where
  "strncasecmp0 a b n = (map tolower (take n a) = map tolower (take n b))"

text \<open>\<open>strchr\<close> and \<open>strrchr\<close>: the index of the first and of the last occurrence.\<close>

definition strchr :: "string \<Rightarrow> char \<Rightarrow> nat option" where
  "strchr s c = (if c \<in> set s then Some (length (takeWhile (\<lambda>x. x \<noteq> c) s)) else None)"

definition strrchr :: "string \<Rightarrow> char \<Rightarrow> nat option" where
  "strrchr s c = (if c \<in> set s
     then Some (length s - 1 - length (takeWhile (\<lambda>x. x \<noteq> c) (rev s))) else None)"

text \<open>The children of the directory whose \<open>rd_dir_t\<close> is passed as \<open>parent\<close>.\<close>

definition dir_children :: "rd_state \<Rightarrow> nat \<Rightarrow> fault + nat list" where
  "dir_children st parent =
    (if parent = 0 then Inl NullDeref
     else (case node_at st parent of
             None \<Rightarrow> Inl BadAccess
           | Some nf \<Rightarrow> (case data nf of
                 DirList cs \<Rightarrow> Inr cs
               | NullData \<Rightarrow> Inl NullDeref
               | Block b \<Rightarrow> Inl BadAccess)))"

text \<open>
  \<open>ramdisk_find\<close>: the \<open>LIST_FOREACH\<close> over the children. The C function gets the name
  as a pointer into the path and a length; the model gets those characters.
\<close>

fun find_in :: "rd_state \<Rightarrow> nat list \<Rightarrow> string \<Rightarrow> fault + nat" where
  "find_in st [] nm = Inr 0"
| "find_in st (c # cs) nm =
    (case node_at st c of
       None \<Rightarrow> Inl BadAccess
     | Some f \<Rightarrow>
         if length (name f) = length nm \<and> strncasecmp0 nm (name f) (length nm) then Inr c
         else find_in st cs nm)"

definition ramdisk_find :: "rd_state \<Rightarrow> nat \<Rightarrow> string \<Rightarrow> fault + nat" where
  "ramdisk_find st parent nm =
    (case dir_children st parent of Inl e \<Rightarrow> Inl e | Inr cs \<Rightarrow> find_in st cs nm)"

text \<open>
  \<open>ramdisk_find_path\<close>: the \<open>while\<close> loop over the slashes as a recursion on the rest
  of the path, carrying the loop's variables \<open>parent\<close>, \<open>f\<close> and \<open>fn\<close>; the last case
  is the code after the loop.
\<close>

function find_path_from :: "rd_state \<Rightarrow> nat \<Rightarrow> nat \<Rightarrow> string \<Rightarrow> bool \<Rightarrow> fault + nat" where
  "find_path_from st parent f fn dr =
    (case strchr fn CHR ''/'' of
       Some cur \<Rightarrow>
         if cur \<noteq> 0 then
           (case ramdisk_find st parent (take cur fn) of
              Inl e \<Rightarrow> Inl e
            | Inr f1 \<Rightarrow>
                if f1 = 0 then Inr 0
                else (case node_at st f1 of
                        None \<Rightarrow> Inl BadAccess
                      | Some nf \<Rightarrow>
                          if \<not> isdir nf then Inr 0
                          else if data nf = NullData then Inl AssertFail
                          else find_path_from st f1 f1 (drop (Suc cur) fn) dr))
         else find_path_from st parent f (drop (Suc cur) fn) dr
     | None \<Rightarrow>
         if fn \<noteq> [] then
           (case ramdisk_find st parent fn of
              Inl e \<Rightarrow> Inl e
            | Inr f1 \<Rightarrow>
                if f1 = 0 then Inr 0
                else (case node_at st f1 of
                        None \<Rightarrow> Inl BadAccess
                      | Some nf \<Rightarrow>
                          if (\<not> dr \<and> isdir nf) \<or> (dr \<and> \<not> isdir nf) then Inr 0 else Inr f1))
         else if \<not> dr then Inr 0
         else Inr f)"
  by pat_completeness auto
termination
proof (relation "measure (\<lambda>(st, parent, f, fn, dr). length fn)")
  show "wf (measure (\<lambda>(st, parent, f, fn, dr). length fn))" by simp
next
  fix st :: rd_state and parent f :: nat and fn :: string and dr :: bool and cur
  assume "strchr fn CHR ''/'' = Some cur"
  then have "fn \<noteq> []" by (auto simp: strchr_def split: if_splits)
  then show "((st, parent, f, drop (Suc cur) fn, dr), (st, parent, f, fn, dr))
      \<in> measure (\<lambda>(st, parent, f, fn, dr). length fn)" by simp
next
  fix st :: rd_state and parent f :: nat and fn :: string and dr :: bool and cur f1
  assume "strchr fn CHR ''/'' = Some cur"
  then have "fn \<noteq> []" by (auto simp: strchr_def split: if_splits)
  then show "((st, f1, f1, drop (Suc cur) fn, dr), (st, parent, f, fn, dr))
      \<in> measure (\<lambda>(st, parent, f, fn, dr). length fn)" by simp
qed

declare find_path_from.simps [simp del]

definition ramdisk_find_path :: "rd_state \<Rightarrow> nat \<Rightarrow> string \<Rightarrow> bool \<Rightarrow> fault + nat" where
  "ramdisk_find_path st parent fn dr = find_path_from st parent 0 fn dr"

text \<open>
  \<open>ramdisk_get_parent\<close>: the returned \<open>int\<close>, \<open>*dout\<close>, \<open>*fnout\<close> and the state.
\<close>

definition ramdisk_get_parent ::
    "rd_state \<Rightarrow> nat \<Rightarrow> string \<Rightarrow> fault + (int \<times> nat \<times> string \<times> rd_state)" where
  "ramdisk_get_parent st parent fn =
    (case strrchr fn CHR ''/'' of
       None \<Rightarrow> Inr (0, parent, fn, st)
     | Some p \<Rightarrow>
         let (ok, st1) = malloc_ok st in
         if \<not> ok then Inr (- 2, 0, [], set_errno ENOMEM st1)
         else (case ramdisk_find_path st1 parent (take p fn) True of
                 Inl e \<Rightarrow> Inl e
               | Inr f \<Rightarrow>
                   if f = 0 then Inr (- 1, 0, [], set_errno ENOENT st1)
                   else (case node_at st1 f of
                           None \<Rightarrow> Inl BadAccess
                         | Some nf \<Rightarrow>
                             if data nf = NullData then Inl AssertFail
                             else Inr (0, f, drop (Suc p) fn, st1))))"

text \<open>\<open>LIST_INSERT_HEAD(pdir, f, dirlist)\<close>.\<close>

definition list_insert_head :: "nat \<Rightarrow> nat \<Rightarrow> rd_state \<Rightarrow> fault + rd_state" where
  "list_insert_head pdir f st =
    (case dir_children st pdir of
       Inl e \<Rightarrow> Inl e
     | Inr cs \<Rightarrow> (case node_at st pdir of
           None \<Rightarrow> Inl BadAccess
         | Some nd \<Rightarrow> Inr (set_node pdir (nd\<lparr>data := DirList (f # cs)\<rparr>) st)))"

text \<open>
  \<open>ramdisk_create_file\<close>: the new node's address (\<open>0\<close> for \<open>NULL\<close>) and the state. The
  three requests are the node, the copy of the name and the data block.
\<close>

definition ramdisk_create_file ::
    "rd_state \<Rightarrow> nat \<Rightarrow> string \<Rightarrow> bool \<Rightarrow> fault + (nat \<times> rd_state)" where
  "ramdisk_create_file st parent fn dr =
    (case ramdisk_get_parent st parent fn of
       Inl e \<Rightarrow> Inl e
     | Inr (rc, pdir, p, st1) \<Rightarrow>
         if rc < 0 then Inr (0, st1)
         else
           let (ok1, st2) = malloc_ok st1 in
           if \<not> ok1 then Inr (0, set_errno ENOMEM st2)
           else
             let (ok2, st3) = malloc_ok st2 in
             if \<not> ok2 then Inr (0, set_errno ENOMEM st3)
             else
               let (ok3, st4) = malloc_ok st3 in
               if \<not> ok3 then Inr (0, set_errno ENOMEM st4)
               else
                 let nf = \<lparr>name = p, fsize = 0, isdir = dr, openfor = OPENFOR_NOTHING,
                           usage = 0,
                           data = (if \<not> dr then Block (replicate rd_blksize 0) else DirList []),
                           datasize = (if \<not> dr then rd_blksize else 0)\<rparr>;
                     (f, st5) = new_node nf st4
                 in (case list_insert_head pdir f st5 of
                       Inl e \<Rightarrow> Inl e
                     | Inr st6 \<Rightarrow> Inr (f, st6)))"

subsection \<open>Open\<close>

text \<open>
  The lookup of \<open>ramdisk_open\<close> (the empty path is the root; a missing file is created
  for a writer): the node found, or \<open>0\<close> where the code returns \<open>NULL\<close>.
\<close>

definition open_lookup :: "rd_state \<Rightarrow> string \<Rightarrow> int \<Rightarrow> fault + (nat \<times> rd_state)" where
  "open_lookup st fn mode =
    (if fn = [] then Inr (root st, st)
     else (case ramdisk_find_path st (root st) fn (mode AND O_DIR \<noteq> 0) of
             Inl e \<Rightarrow> Inl e
           | Inr f \<Rightarrow>
               if f = 0 then
                 (if mode AND O_MODE_MASK \<noteq> O_RDONLY \<and> mode AND O_DIR = 0
                  then ramdisk_create_file st (root st) fn (mode AND O_DIR \<noteq> 0)
                  else Inr (0, set_errno ENOENT st))
               else Inr (f, st)))"

text \<open>
  The part of \<open>ramdisk_open\<close> that depends on the access mode: the node with its lock
  set, the cursor and the state, or \<open>None\<close> where the code returns \<open>NULL\<close>.
\<close>

definition open_access ::
    "rd_state \<Rightarrow> rd_file \<Rightarrow> int \<Rightarrow> fault + (rd_file \<times> nat \<times> rd_state) option" where
  "open_access st nf mode =
    (let mm = mode AND O_MODE_MASK in
     if mm = O_RDONLY then Inr (Some (nf\<lparr>openfor := OPENFOR_READ\<rparr>, 0, st))
     else if mm AND O_RDWR \<noteq> 0 \<or> mm AND O_WRONLY \<noteq> 0 then
       (if openfor nf = OPENFOR_READ then Inr None
        else if mode AND O_APPEND \<noteq> 0 then
          Inr (Some (nf\<lparr>openfor := OPENFOR_WRITE\<rparr>, fsize nf, st))
        else if mode AND O_TRUNC \<noteq> 0 then
          (let (ok, st1) = malloc_ok st in
           Inr (Some (nf\<lparr>openfor := OPENFOR_WRITE, datasize := rd_blksize,
                         data := (if ok then Block (replicate rd_blksize 0) else NullData),
                         fsize := 0\<rparr>, 0, st1)))
        else Inr (Some (nf\<lparr>openfor := OPENFOR_WRITE\<rparr>, 0, st)))
     else Inl AssertFail)"

text \<open>\<open>(uint32_t)LIST_FIRST((rd_dir_t *)f->data)\<close>.\<close>

definition list_first :: "rd_data \<Rightarrow> fault + nat" where
  "list_first d = (case d of
       DirList cs \<Rightarrow> Inr (case cs of [] \<Rightarrow> 0 | c # _ \<Rightarrow> c)
     | NullData \<Rightarrow> Inl NullDeref
     | Block b \<Rightarrow> Inl BadAccess)"

text \<open>\<open>if(fn[0] == '/') fn++;\<close>\<close>

definition skip_slash :: "string \<Rightarrow> string" where
  "skip_slash fn = (case fn of [] \<Rightarrow> [] | c # cs \<Rightarrow> if c = CHR ''/'' then cs else fn)"

text \<open>
  \<open>ramdisk_open\<close> from the test of the node's kind to the end (lines 313 to 378), for
  the node \<open>f\<close> that the lookup found or created.
\<close>

definition open_node :: "rd_state \<Rightarrow> nat \<Rightarrow> int \<Rightarrow> fault + (nat \<times> rd_state)" where
  "open_node st1 f mode =
    (case node_at st1 f of
       None \<Rightarrow> Inl BadAccess
     | Some nf \<Rightarrow>
         if isdir nf \<and> mode AND O_DIR = 0 then Inr (0, set_errno EINVAL st1)
         else if openfor nf = OPENFOR_WRITE then Inr (0, st1)
         else
           let (ok, st2) = malloc_ok st1 in
           if \<not> ok then Inr (0, set_errno ENOMEM st2)
           else
             let fd = fd_zero\<lparr>filep := f, dir := (mode AND O_DIR \<noteq> 0), omode := mode\<rparr>;
                 (h, st3) = new_fd fd st2
             in (case open_access st3 nf mode of
                   Inl e \<Rightarrow> Inl e
                 | Inr None \<Rightarrow> Inr (0, st3)
                 | Inr (Some (nf1, p, st4)) \<Rightarrow>
                     (case (if mode AND O_DIR \<noteq> 0 then list_first (data nf1) else Inr p) of
                        Inl e \<Rightarrow> Inl e
                      | Inr p1 \<Rightarrow>
                          let st5 = set_fd h (fd\<lparr>ptr := p1\<rparr>) st4;
                              st6 = set_node f (nf1\<lparr>usage := usage nf1 + 1\<rparr>) st5
                          in Inr (h, st6\<lparr>rd_fd_queue := rd_fd_queue st6 @ [h]\<rparr>))))"

text \<open>\<open>ramdisk_open\<close>: the handle (\<open>0\<close> for \<open>NULL\<close>) and the state.\<close>

definition ramdisk_open :: "rd_state \<Rightarrow> string \<Rightarrow> int \<Rightarrow> fault + (nat \<times> rd_state)" where
  "ramdisk_open st fn0 mode =
    (let mm = mode AND O_MODE_MASK;
         fn = skip_slash fn0
     in
     if mode AND O_DIR \<noteq> 0 \<and> mm \<noteq> O_RDONLY then Inr (0, set_errno EISDIR st)
     else if root st = 0 then Inl AssertFail
     else (case open_lookup st fn mode of
        Inl e \<Rightarrow> Inl e
      | Inr (f, st1) \<Rightarrow> if f = 0 then Inr (0, st1) else open_node st1 f mode))"

subsection \<open>Directory enumeration\<close>

text \<open>
  \<open>LIST_NEXT(f, dirlist)\<close>, the \<open>le_next\<close> link of the node \<open>f\<close>: the successor of \<open>f\<close> in
  the list that holds it. A live node under the cursor of a directory descriptor is
  held by that descriptor's directory (nodes are never moved), whose children are
  \<open>cs\<close>.
\<close>

definition list_next :: "nat list \<Rightarrow> nat \<Rightarrow> nat" where
  "list_next cs f = (case dropWhile (\<lambda>x. x \<noteq> f) cs of _ # n # _ \<Rightarrow> n | _ \<Rightarrow> 0)"

text \<open>
  \<open>ramdisk_readdir\<close>: the entry returned (\<open>None\<close> for \<open>NULL\<close>) and the state. The code
  reads \<open>LIST_NEXT(f, dirlist)\<close> and \<open>f->name\<close> through the cursor \<open>f\<close> without
  testing it.
\<close>

definition ramdisk_readdir :: "rd_state \<Rightarrow> nat \<Rightarrow> fault + (dirent_t option \<times> rd_state)" where
  "ramdisk_readdir st h =
    (if ramdisk_fd_invalid st h \<or> \<not> dir (fd_at st h) then Inr (None, set_errno EBADF st)
     else
       let fd = fd_at st h; f = ptr fd in
       if f = 0 then Inl NullDeref
       else (case node_at st f of
          None \<Rightarrow> Inl BadAccess
        | Some nf \<Rightarrow>
            (case dir_children st (filep fd) of
               Inl e \<Rightarrow> Inl e
             | Inr cs \<Rightarrow>
                 let de = (if isdir nf
                           then \<lparr>d_size = - 1, d_name = name nf, d_time = 0, d_attr = O_DIR\<rparr>
                           else \<lparr>d_size = s32 (fsize nf), d_name = name nf, d_time = 0,
                                 d_attr = 0\<rparr>)
                 in Inr (Some de, set_fd h (fd\<lparr>ptr := list_next cs f, dirent := de\<rparr>) st))))"

definition ramdisk_rewinddir :: "rd_state \<Rightarrow> nat \<Rightarrow> fault + (int \<times> rd_state)" where
  "ramdisk_rewinddir st h =
    (if ramdisk_fd_invalid st h \<or> \<not> dir (fd_at st h) then Inr (- 1, set_errno EBADF st)
     else
       let fd = fd_at st h in
       (case node_at st (filep fd) of
          None \<Rightarrow> Inl BadAccess
        | Some nd \<Rightarrow> (case list_first (data nd) of
              Inl e \<Rightarrow> Inl e
            | Inr p \<Rightarrow> Inr (0, set_fd h (fd\<lparr>ptr := p\<rparr>) st))))"

subsection \<open>Unlink\<close>

text \<open>\<open>LIST_REMOVE(f, dirlist)\<close>: \<open>f\<close> leaves the list that holds it.\<close>

definition list_remove :: "nat \<Rightarrow> rd_state \<Rightarrow> rd_state" where
  "list_remove f st = st\<lparr>nodes := map (map_option (\<lambda>nd.
      case data nd of DirList cs \<Rightarrow> nd\<lparr>data := DirList (removeAll f cs)\<rparr> | _ \<Rightarrow> nd))
    (nodes st)\<rparr>"

definition ramdisk_unlink :: "rd_state \<Rightarrow> string \<Rightarrow> fault + (int \<times> rd_state)" where
  "ramdisk_unlink st fn =
    (case ramdisk_find_path st (root st) fn False of
       Inl e \<Rightarrow> Inl e
     | Inr f \<Rightarrow>
         if f = 0 then Inr (- 1, set_errno ENOENT st)
         else (case node_at st f of
                 None \<Rightarrow> Inl BadAccess
               | Some nf \<Rightarrow>
                   if usage nf \<noteq> 0 then Inr (- 1, set_errno EBUSY st)
                   else Inr (0, free_node f (list_remove f st))))"

subsection \<open>Stat and fstat\<close>

record stat =
  st_dev :: nat
  st_mode :: int
  st_size :: int
  st_nlink :: int
  st_blksize :: int
  st_blocks :: int

text \<open>
  Modelled from the spec: the mode bits of \<^verbatim>\<open>sys/stat.h\<close> and the macro
  \<open>__align_up\<close> are not among the sources. The spec describes the mode as a bitmask of
  file kind and permissions, and the block count as the capacity rounded up to the
  block size; the bit values are the usual octal ones.
\<close>

definition S_IFDIR :: int where "S_IFDIR = 16384"
definition S_IFREG :: int where "S_IFREG = 32768"
definition S_IRWXU :: int where "S_IRWXU = 448"
definition S_IRUSR :: int where "S_IRUSR = 256"
definition S_IWUSR :: int where "S_IWUSR = 128"
definition S_IXUSR :: int where "S_IXUSR = 64"
definition S_IRWXG :: int where "S_IRWXG = 56"
definition S_IRGRP :: int where "S_IRGRP = 32"
definition S_IWGRP :: int where "S_IWGRP = 16"
definition S_IXGRP :: int where "S_IXGRP = 8"
definition S_IRWXO :: int where "S_IRWXO = 7"
definition S_IROTH :: int where "S_IROTH = 4"
definition S_IWOTH :: int where "S_IWOTH = 2"
definition S_IXOTH :: int where "S_IXOTH = 1"

definition align_up :: "nat \<Rightarrow> nat \<Rightarrow> nat" where
  "align_up x a = wrap32 (x + (a - 1)) div a * a"

definition stat_zero :: stat where
  "stat_zero = \<lparr>st_dev = 0, st_mode = 0, st_size = 0, st_nlink = 0, st_blksize = 0,
     st_blocks = 0\<rparr>"

text \<open>\<open>ramdisk_stat\<close>: the returned \<open>int\<close>, what is stored in \<open>*st\<close>, and the state.\<close>

definition ramdisk_stat :: "rd_state \<Rightarrow> string \<Rightarrow> fault + ((int \<times> stat option) \<times> rd_state)" where
  "ramdisk_stat st path =
    (if length path = 0 \<or> (length path = 1 \<and> hd path = CHR ''/'') then
       Inr ((0, Some (stat_zero\<lparr>st_dev := rd_dev,
                        st_mode := S_IFDIR OR S_IRWXU OR S_IRWXG OR S_IRWXO,
                        st_size := - 1, st_nlink := 2\<rparr>)), st)
     else (case ramdisk_find_path st (root st) path False of
        Inl e \<Rightarrow> Inl e
      | Inr f \<Rightarrow>
          if f = 0 then Inr ((- 1, None), set_errno ENOENT st)
          else (case node_at st f of
             None \<Rightarrow> Inl BadAccess
           | Some nf \<Rightarrow>
               Inr ((0, Some \<lparr>st_dev = rd_dev,
                      st_mode = (S_IRUSR OR S_IWUSR OR S_IRGRP OR S_IWGRP OR S_IROTH OR S_IWOTH)
                        OR (if isdir nf then S_IFDIR OR S_IXUSR OR S_IXGRP OR S_IXOTH
                            else S_IFREG),
                      st_size = (if isdir nf then - 1 else s32 (datasize nf)),
                      st_nlink = (if isdir nf then 2 else 1),
                      st_blksize = int rd_blksize,
                      st_blocks = int (align_up (datasize nf) rd_blksize div rd_blksize)\<rparr>),
                    st))))"

definition ramdisk_fstat :: "rd_state \<Rightarrow> nat \<Rightarrow> fault + ((int \<times> stat option) \<times> rd_state)" where
  "ramdisk_fstat st h =
    (if ramdisk_fd_invalid st h then Inr ((- 1, None), set_errno EBADF st)
     else (case node_at st (filep (fd_at st h)) of
        None \<Rightarrow> Inl BadAccess
      | Some nf \<Rightarrow>
          Inr ((0, Some \<lparr>st_dev = rd_dev,
                 st_mode = (S_IRUSR OR S_IWUSR OR S_IRGRP OR S_IWGRP OR S_IROTH OR S_IWOTH)
                   OR (if isdir nf then S_IFDIR else S_IFREG),
                 st_size = (if isdir nf then - 1 else s32 (datasize nf)),
                 st_nlink = (if isdir nf then 2 else 1),
                 st_blksize = int rd_blksize,
                 st_blocks = int (align_up (datasize nf) rd_blksize div rd_blksize)\<rparr>),
               st)))"

subsection \<open>Attach, detach and initialisation\<close>

text \<open>
  \<open>fs_ramdisk_attach\<close>: \<open>obj\<close> is the \<open>size\<close> bytes at the caller's pointer. The result
  of \<open>ramdisk_close\<close> is dropped, as in the code.
\<close>

definition fs_ramdisk_attach :: "rd_state \<Rightarrow> string \<Rightarrow> byte list \<Rightarrow> fault + (int \<times> rd_state)" where
  "fs_ramdisk_attach st fn obj =
    (case ramdisk_open st fn (O_WRONLY OR O_TRUNC) of
       Inl e \<Rightarrow> Inl e
     | Inr (h, st1) \<Rightarrow>
         if h = 0 then Inr (- 1, st1)
         else
           let f = filep (fd_at st1 h) in
           (case node_at st1 f of
              None \<Rightarrow> Inl BadAccess
            | Some nf \<Rightarrow>
                let st2 = set_node f (nf\<lparr>data := Block obj, datasize := wrap32 (length obj),
                                         fsize := wrap32 (length obj)\<rparr>) st1
                in (case ramdisk_close st2 h of
                      Inl e \<Rightarrow> Inl e
                    | Inr (rc, st3) \<Rightarrow> Inr (0, st3))))"

text \<open>
  \<open>fs_ramdisk_detach\<close>: the returned \<open>int\<close>, what is stored in \<open>*obj\<close> and \<open>*size\<close>, and
  the state. The results of \<open>ramdisk_close\<close> and of \<open>ramdisk_unlink\<close> are dropped, as in
  the code.
\<close>

definition fs_ramdisk_detach ::
    "rd_state \<Rightarrow> string \<Rightarrow> fault + ((int \<times> (rd_data \<times> nat) option) \<times> rd_state)" where
  "fs_ramdisk_detach st fn =
    (case ramdisk_open st fn O_RDONLY of
       Inl e \<Rightarrow> Inl e
     | Inr (h, st1) \<Rightarrow>
         if h = 0 then Inr ((- 1, None), st1)
         else
           let f = filep (fd_at st1 h) in
           (case node_at st1 f of
              None \<Rightarrow> Inl BadAccess
            | Some nf \<Rightarrow>
                let st2 = set_node f (nf\<lparr>data := NullData, datasize := 0, fsize := 0\<rparr>) st1
                in (case ramdisk_close st2 h of
                      Inl e \<Rightarrow> Inl e
                    | Inr (rc, st3) \<Rightarrow>
                        (case ramdisk_unlink st3 fn of
                           Inl e \<Rightarrow> Inl e
                         | Inr (rc1, st4) \<Rightarrow> Inr ((0, Some (data nf, fsize nf)), st4)))))"

text \<open>
  \<open>fs_ramdisk_init\<close>: the three requests are the root's \<open>rd_dir_t\<close>, the root node and
  its name. The model has no variable \<open>rootdir\<close> apart from \<open>root\<close>; where a request
  fails it leaves \<open>root\<close> null.
\<close>

definition fs_ramdisk_init :: "rd_state \<Rightarrow> rd_state" where
  "fs_ramdisk_init st =
    (if root st \<noteq> 0 then st
     else
       let (ok1, st1) = malloc_ok st in
       if \<not> ok1 then st1
       else
         let (ok2, st2) = malloc_ok st1 in
         if \<not> ok2 then st2
         else
           let (ok3, st3) = malloc_ok st2 in
           if \<not> ok3 then st3
           else
             let (r, st4) = new_node \<lparr>name = ''/'', fsize = 0, isdir = True,
                               openfor = OPENFOR_NOTHING, usage = 0, data = DirList [],
                               datasize = 0\<rparr> st3
             in st4\<lparr>root := r, rd_fd_queue := []\<rparr>)"

text \<open>The state before \<open>fs_ramdisk_init\<close>: the static variables as the loader zeroes them.\<close>

definition rd_boot :: rd_state where
  "rd_boot = \<lparr>nodes = [], fds = [], rd_fd_queue = [], root = 0, errno = None, heap_plan = []\<rparr>"

subsection \<open>Running operations in sequence\<close>

definition and_then ::
    "fault + ('a \<times> rd_state) \<Rightarrow> ('a \<Rightarrow> rd_state \<Rightarrow> fault + 'b) \<Rightarrow> fault + 'b" where
  "and_then r k = (case r of Inl e \<Rightarrow> Inl e | Inr (x, st) \<Rightarrow> k x st)"

definition returned :: "fault + ('a \<times> rd_state) \<Rightarrow> fault + 'a" where
  "returned r = (case r of Inl e \<Rightarrow> Inl e | Inr (x, st) \<Rightarrow> Inr x)"

definition state_of :: "fault + ('a \<times> rd_state) \<Rightarrow> rd_state" where
  "state_of r = (case r of Inl e \<Rightarrow> rd_boot | Inr (x, st) \<Rightarrow> st)"

text \<open>The \<open>int\<close> returned by \<open>stat\<close> or \<open>fstat\<close> and the \<open>st_size\<close> it stored.\<close>

definition stat_size ::
    "fault + ((int \<times> stat option) \<times> rd_state) \<Rightarrow> fault + (int \<times> int option)" where
  "stat_size r = (case r of Inl e \<Rightarrow> Inl e
     | Inr ((rc, s), st) \<Rightarrow> Inr (rc, map_option st_size s))"

text \<open>
  A short history of the file system, used to evaluate the operations: the ramdisk
  right after \<open>fs_ramdisk_init\<close>; then \<open>/a\<close> opened for writing (handle 1); then five
  bytes written; then the handle closed; then \<open>/a\<close> opened for reading (handle 2).
\<close>

definition rd_fresh :: rd_state where
  "rd_fresh = fs_ramdisk_init rd_boot"

definition rd_writing :: rd_state where
  "rd_writing = state_of (ramdisk_open rd_fresh ''/a'' (O_WRONLY OR O_TRUNC))"

definition rd_written :: rd_state where
  "rd_written = state_of (ramdisk_write rd_writing 1 [1, 2, 3, 4, 5])"

definition rd_closed :: rd_state where
  "rd_closed = state_of (ramdisk_close rd_written 1)"

definition rd_reading :: rd_state where
  "rd_reading = state_of (ramdisk_open rd_closed ''/a'' O_RDONLY)"

subsection \<open>Invariants\<close>

text \<open>
  The live descriptors are those in \<open>rd_fd_queue\<close>. \<open>holders st a\<close> counts the live
  descriptors whose \<open>file\<close> is the node \<open>a\<close>.
\<close>

definition holders :: "rd_state \<Rightarrow> nat \<Rightarrow> nat" where
  "holders st a = length (filter (\<lambda>h. filep (fd_at st h) = a) (rd_fd_queue st))"

text \<open>
  The bookkeeping of a node: its usage count is the number of live descriptors on it,
  its lock is one of the three constants, and the lock is \<open>OPENFOR_NOTHING\<close> exactly
  when the count is zero.
\<close>

definition node_ok :: "rd_state \<Rightarrow> nat \<Rightarrow> bool" where
  "node_ok st a = (case node_at st a of
       None \<Rightarrow> True
     | Some n \<Rightarrow> usage n = int (holders st a)
         \<and> (openfor n = OPENFOR_NOTHING) = (usage n = 0)
         \<and> openfor n \<in> {OPENFOR_NOTHING, OPENFOR_READ, OPENFOR_WRITE})"

text \<open>
  \<open>rd_inv\<close>: the live descriptors are distinct allocated descriptors on live nodes, and
  every node's bookkeeping is right.
\<close>

definition rd_inv :: "rd_state \<Rightarrow> bool" where
  "rd_inv st = (distinct (rd_fd_queue st)
     \<and> (\<forall>h \<in> set (rd_fd_queue st).
           0 < h \<and> h \<le> length (fds st) \<and> node_at st (filep (fd_at st h)) \<noteq> None)
     \<and> (\<forall>a \<in> set [1..<Suc (length (nodes st))]. node_ok st a))"

text \<open>
  \<open>rd_flat\<close>: the root is a directory and its children are files. No operation makes
  a directory (\<open>mkdir\<close> is not implemented, and \<open>ramdisk_open\<close> creates files only), so
  the root is the only one; \<open>fs_ramdisk_shutdown\<close> relies on the same fact.
\<close>

definition rd_flat :: "rd_state \<Rightarrow> bool" where
  "rd_flat st = (case node_at st (root st) of
       None \<Rightarrow> False
     | Some r \<Rightarrow> isdir r \<and> (case data r of
           DirList cs \<Rightarrow> (\<forall>c \<in> set cs. case node_at st c of
               None \<Rightarrow> False | Some n \<Rightarrow> \<not> isdir n)
         | _ \<Rightarrow> False))"

text \<open>
  What path resolution reads of a node: its name, its kind and, for a directory, its
  children. Two states have the same tree when all nodes agree on that.
\<close>

definition skel :: "rd_file \<Rightarrow> string \<times> bool \<times> rd_data" where
  "skel n = (name n, isdir n, if isdir n then data n else NullData)"

definition same_tree :: "rd_state \<Rightarrow> rd_state \<Rightarrow> bool" where
  "same_tree st st' = (\<forall>a. map_option skel (node_at st a) = map_option skel (node_at st' a))"

text \<open>
  \<open>keeps_counts st st'\<close>: a step from \<open>st\<close> to \<open>st'\<close> that leaves the bookkeeping alone.
  The live descriptors and their nodes are the same, every node keeps its usage count
  and its lock, a node that appears is unopened, and no node disappears.
\<close>

definition keeps_counts :: "rd_state \<Rightarrow> rd_state \<Rightarrow> bool" where
  "keeps_counts st st' \<longleftrightarrow>
     rd_fd_queue st' = rd_fd_queue st \<and> length (fds st) \<le> length (fds st')
     \<and> (\<forall>k. 0 < k \<and> k \<le> length (fds st) \<longrightarrow> filep (fd_at st' k) = filep (fd_at st k))
     \<and> (\<forall>a n'. node_at st' a = Some n' \<longrightarrow>
           (case node_at st a of
              Some n \<Rightarrow> usage n' = usage n \<and> openfor n' = openfor n
            | None \<Rightarrow> usage n' = 0 \<and> openfor n' = OPENFOR_NOTHING))
     \<and> (\<forall>a. node_at st a \<noteq> None \<longrightarrow> node_at st' a \<noteq> None)"


text \<open>
  \<open>resolves st fn f\<close>: in the state \<open>st\<close>, whose root is a directory, the non-empty
  path \<open>fn\<close> (after the leading slash is skipped) is found by \<open>ramdisk_find_path\<close> as
  the file node \<open>f\<close>.
\<close>

definition resolves :: "rd_state \<Rightarrow> string \<Rightarrow> nat \<Rightarrow> bool" where
  "resolves st fn f \<longleftrightarrow>
     (case node_at st (root st) of None \<Rightarrow> False | Some r \<Rightarrow> isdir r)
     \<and> fn \<noteq> [] \<and> f \<noteq> 0 \<and> ramdisk_find_path st (root st) fn False = Inr f"

text \<open>The node that \<open>ramdisk_create_file\<close> makes for a new file named \<open>nm\<close>.\<close>

definition fresh_file :: "string \<Rightarrow> rd_file" where
  "fresh_file nm = \<lparr>name = nm, fsize = 0, isdir = False, openfor = OPENFOR_NOTHING, usage = 0,
     data = Block (replicate rd_blksize 0), datasize = rd_blksize\<rparr>"

section \<open>Evaluating the history\<close>

lemmas const_defs = O_RDONLY_def O_WRONLY_def O_RDWR_def O_APPEND_def O_MODE_MASK_def
  O_TRUNC_def O_DIR_def OPENFOR_NOTHING_def OPENFOR_READ_def OPENFOR_WRITE_def rd_blksize_def

lemmas heap_defs = node_at_def set_node_def free_node_def new_node_def fd_at_def set_fd_def
  new_fd_def malloc_ok_def set_errno_def fd_zero_def

lemmas path_defs = strchr_def strrchr_def ramdisk_find_def dir_children_def
  find_path_from.simps ramdisk_find_path_def ramdisk_get_parent_def list_insert_head_def
  ramdisk_create_file_def strncasecmp0_def tolower_def

lemmas open_defs = ramdisk_open_def open_node_def skip_slash_def open_lookup_def open_access_def
  list_first_def

lemmas int_defs = wrap32_def u32_def s32_def

lemmas run_defs = and_then_def returned_def state_of_def

lemma rd_fresh_eq:
  "rd_fresh = \<lparr>nodes = [Some \<lparr>name = ''/'', fsize = 0, isdir = True, openfor = 0, usage = 0,
                  data = DirList [], datasize = 0\<rparr>],
     fds = [], rd_fd_queue = [], root = 1, errno = None, heap_plan = []\<rparr>"
  by (simp add: rd_fresh_def fs_ramdisk_init_def rd_boot_def heap_defs const_defs)

lemma open_fresh_eq:
  "ramdisk_open rd_fresh ''/a'' (O_WRONLY OR O_TRUNC) = Inr (1,
    \<lparr>nodes = [Some \<lparr>name = ''/'', fsize = 0, isdir = True, openfor = 0, usage = 0,
                 data = DirList [2], datasize = 0\<rparr>,
               Some \<lparr>name = ''a'', fsize = 0, isdir = False, openfor = 2, usage = 1,
                 data = Block (replicate 1024 0), datasize = 1024\<rparr>],
      fds = [\<lparr>filep = 2, dir = False, ptr = 0,
              dirent = \<lparr>d_size = 0, d_name = [], d_time = 0, d_attr = 0\<rparr>, omode = 1025\<rparr>],
      rd_fd_queue = [1], root = 1, errno = None, heap_plan = []\<rparr>)"
  by (simp add: rd_fresh_eq open_defs heap_defs const_defs path_defs)

lemma rd_writing_eq:
  "rd_writing =
    \<lparr>nodes = [Some \<lparr>name = ''/'', fsize = 0, isdir = True, openfor = 0, usage = 0,
                 data = DirList [2], datasize = 0\<rparr>,
               Some \<lparr>name = ''a'', fsize = 0, isdir = False, openfor = 2, usage = 1,
                 data = Block (replicate 1024 0), datasize = 1024\<rparr>],
      fds = [\<lparr>filep = 2, dir = False, ptr = 0,
              dirent = \<lparr>d_size = 0, d_name = [], d_time = 0, d_attr = 0\<rparr>, omode = 1025\<rparr>],
      rd_fd_queue = [1], root = 1, errno = None, heap_plan = []\<rparr>"
  unfolding rd_writing_def open_fresh_eq by (simp add: state_of_def)

lemma write_writing_eq:
  "ramdisk_write rd_writing 1 [1, 2, 3, 4, 5] = Inr (5,
    \<lparr>nodes = [Some \<lparr>name = ''/'', fsize = 0, isdir = True, openfor = 0, usage = 0,
                 data = DirList [2], datasize = 0\<rparr>,
               Some \<lparr>name = ''a'', fsize = 5, isdir = False, openfor = 2, usage = 1,
                 data = Block ([1, 2, 3, 4, 5] @ replicate 1019 0), datasize = 1024\<rparr>],
      fds = [\<lparr>filep = 2, dir = False, ptr = 5,
              dirent = \<lparr>d_size = 0, d_name = [], d_time = 0, d_attr = 0\<rparr>, omode = 1025\<rparr>],
      rd_fd_queue = [1], root = 1, errno = None, heap_plan = []\<rparr>)"
  by (simp add: rd_writing_eq ramdisk_write_def ramdisk_fd_invalid_def store_bytes_def
      heap_defs const_defs int_defs)

lemma rd_written_eq:
  "rd_written =
    \<lparr>nodes = [Some \<lparr>name = ''/'', fsize = 0, isdir = True, openfor = 0, usage = 0,
                 data = DirList [2], datasize = 0\<rparr>,
               Some \<lparr>name = ''a'', fsize = 5, isdir = False, openfor = 2, usage = 1,
                 data = Block ([1, 2, 3, 4, 5] @ replicate 1019 0), datasize = 1024\<rparr>],
      fds = [\<lparr>filep = 2, dir = False, ptr = 5,
              dirent = \<lparr>d_size = 0, d_name = [], d_time = 0, d_attr = 0\<rparr>, omode = 1025\<rparr>],
      rd_fd_queue = [1], root = 1, errno = None, heap_plan = []\<rparr>"
  unfolding rd_written_def write_writing_eq by (simp add: state_of_def)

lemma close_written_eq:
  "ramdisk_close rd_written 1 = Inr (0,
    \<lparr>nodes = [Some \<lparr>name = ''/'', fsize = 0, isdir = True, openfor = 0, usage = 0,
                 data = DirList [2], datasize = 0\<rparr>,
               Some \<lparr>name = ''a'', fsize = 5, isdir = False, openfor = 0, usage = 0,
                 data = Block ([1, 2, 3, 4, 5] @ replicate 1019 0), datasize = 1024\<rparr>],
      fds = [\<lparr>filep = 0, dir = False, ptr = 5,
              dirent = \<lparr>d_size = 0, d_name = [], d_time = 0, d_attr = 0\<rparr>, omode = 1025\<rparr>],
      rd_fd_queue = [], root = 1, errno = None, heap_plan = []\<rparr>)"
  by (simp add: rd_written_eq ramdisk_close_def ramdisk_fd_invalid_def heap_defs const_defs)

lemma rd_closed_eq:
  "rd_closed =
    \<lparr>nodes = [Some \<lparr>name = ''/'', fsize = 0, isdir = True, openfor = 0, usage = 0,
                 data = DirList [2], datasize = 0\<rparr>,
               Some \<lparr>name = ''a'', fsize = 5, isdir = False, openfor = 0, usage = 0,
                 data = Block ([1, 2, 3, 4, 5] @ replicate 1019 0), datasize = 1024\<rparr>],
      fds = [\<lparr>filep = 0, dir = False, ptr = 5,
              dirent = \<lparr>d_size = 0, d_name = [], d_time = 0, d_attr = 0\<rparr>, omode = 1025\<rparr>],
      rd_fd_queue = [], root = 1, errno = None, heap_plan = []\<rparr>"
  unfolding rd_closed_def close_written_eq by (simp add: state_of_def)

lemma open_closed_eq:
  "ramdisk_open rd_closed ''/a'' O_RDONLY = Inr (2,
    \<lparr>nodes = [Some \<lparr>name = ''/'', fsize = 0, isdir = True, openfor = 0, usage = 0,
                 data = DirList [2], datasize = 0\<rparr>,
               Some \<lparr>name = ''a'', fsize = 5, isdir = False, openfor = 1, usage = 1,
                 data = Block ([1, 2, 3, 4, 5] @ replicate 1019 0), datasize = 1024\<rparr>],
      fds = [\<lparr>filep = 0, dir = False, ptr = 5,
              dirent = \<lparr>d_size = 0, d_name = [], d_time = 0, d_attr = 0\<rparr>, omode = 1025\<rparr>,
             \<lparr>filep = 2, dir = False, ptr = 0,
              dirent = \<lparr>d_size = 0, d_name = [], d_time = 0, d_attr = 0\<rparr>, omode = 0\<rparr>],
      rd_fd_queue = [2], root = 1, errno = None, heap_plan = []\<rparr>)"
  by (simp add: rd_closed_eq open_defs heap_defs const_defs path_defs)

lemma rd_reading_eq:
  "rd_reading =
    \<lparr>nodes = [Some \<lparr>name = ''/'', fsize = 0, isdir = True, openfor = 0, usage = 0,
                 data = DirList [2], datasize = 0\<rparr>,
               Some \<lparr>name = ''a'', fsize = 5, isdir = False, openfor = 1, usage = 1,
                 data = Block ([1, 2, 3, 4, 5] @ replicate 1019 0), datasize = 1024\<rparr>],
      fds = [\<lparr>filep = 0, dir = False, ptr = 5,
              dirent = \<lparr>d_size = 0, d_name = [], d_time = 0, d_attr = 0\<rparr>, omode = 1025\<rparr>,
             \<lparr>filep = 2, dir = False, ptr = 0,
              dirent = \<lparr>d_size = 0, d_name = [], d_time = 0, d_attr = 0\<rparr>, omode = 0\<rparr>],
      rd_fd_queue = [2], root = 1, errno = None, heap_plan = []\<rparr>"
  unfolding rd_reading_def open_closed_eq by (simp add: state_of_def)

section \<open>The heaps\<close>

lemma node_at_set_fd [simp]: "node_at (set_fd h d st) a = node_at st a"
  by (simp add: node_at_def set_fd_def split: nat.splits)

lemma node_at_set_errno [simp]: "node_at (set_errno e st) a = node_at st a"
  by (simp add: node_at_def set_errno_def split: nat.splits)

lemma fd_at_set_node [simp]: "fd_at (set_node a f st) h = fd_at st h"
  by (simp add: fd_at_def set_node_def split: nat.splits)

lemma node_at_set_node:
  "node_at (set_node a f st) b =
     (if b = a \<and> 0 < a \<and> a \<le> length (nodes st) then Some f else node_at st b)"
  by (auto simp: node_at_def set_node_def split: nat.splits)

lemma fd_at_set_fd:
  "fd_at (set_fd h d st) k =
     (if k = h \<and> 0 < h \<and> h \<le> length (fds st) then d else fd_at st k)"
  by (auto simp: fd_at_def set_fd_def split: nat.splits)

lemma node_at_Some_range: "node_at st a = Some f \<Longrightarrow> 0 < a \<and> a \<le> length (nodes st)"
  by (auto simp: node_at_def split: nat.splits if_splits)

lemma fd_valid_range: "\<not> ramdisk_fd_invalid st h \<Longrightarrow> 0 < h \<and> h \<le> length (fds st)"
  by (auto simp: ramdisk_fd_invalid_def fd_at_def fd_zero_def split: nat.splits if_splits)

lemma s32_small: "n < 2 ^ 31 \<Longrightarrow> s32 n = int n"
  by (simp add: s32_def)

lemma wrap32_small: "n < 2 ^ 32 \<Longrightarrow> wrap32 n = n"
  by (simp add: wrap32_def)


section \<open>Path resolution reads the tree only\<close>

lemma same_tree_refl [simp]: "same_tree st st"
  by (simp add: same_tree_def)

lemma same_tree_trans: "same_tree a b \<Longrightarrow> same_tree b c \<Longrightarrow> same_tree a c"
  by (simp add: same_tree_def)

lemma same_tree_sym: "same_tree a b \<Longrightarrow> same_tree b a"
  by (simp add: same_tree_def)

lemma same_tree_node:
  "same_tree st st' \<Longrightarrow> node_at st a = Some n \<Longrightarrow>
     \<exists>n'. node_at st' a = Some n' \<and> name n' = name n \<and> isdir n' = isdir n
        \<and> (isdir n \<longrightarrow> data n' = data n)"
  apply (simp add: same_tree_def)
  apply (drule spec [of _ a])
  apply (cases "node_at st' a")
  apply (auto simp: skel_def split: if_splits)
  done

lemma same_tree_None:
  "same_tree st st' \<Longrightarrow> node_at st a = None \<Longrightarrow> node_at st' a = None"
  apply (simp add: same_tree_def)
  apply (drule spec [of _ a])
  apply simp
  done

lemma find_in_same_tree:
  "same_tree st st' \<Longrightarrow> find_in st cs nm = find_in st' cs nm"
proof (induction cs)
  case Nil
  then show ?case by simp
next
  case (Cons c cs)
  show ?case
  proof (cases "node_at st c")
    case None
    with Cons.prems have "node_at st' c = None" by (simp add: same_tree_None)
    with None show ?thesis by simp
  next
    case (Some n)
    with Cons.prems obtain n' where "node_at st' c = Some n'" "name n' = name n"
      by (blast dest: same_tree_node)
    with Some Cons show ?thesis by simp
  qed
qed

lemma dir_children_same_tree:
  assumes "same_tree st st'" "\<And>n. node_at st p = Some n \<Longrightarrow> isdir n"
  shows "dir_children st p = dir_children st' p"
proof (cases "node_at st p")
  case None
  with assms have "node_at st' p = None" by (simp add: same_tree_None)
  with None show ?thesis by (simp add: dir_children_def)
next
  case (Some n)
  with assms obtain n' where "node_at st' p = Some n'" "data n' = data n"
    by (blast dest: same_tree_node)
  with Some show ?thesis by (simp add: dir_children_def)
qed

lemma ramdisk_find_same_tree:
  assumes "same_tree st st'" "\<And>n. node_at st p = Some n \<Longrightarrow> isdir n"
  shows "ramdisk_find st p nm = ramdisk_find st' p nm"
  using dir_children_same_tree [OF assms] find_in_same_tree [OF assms(1)]
  by (simp add: ramdisk_find_def split: sum.splits)

lemma find_path_from_same_children:
  "same_tree st st' \<Longrightarrow> dir_children st parent = dir_children st' parent \<Longrightarrow>
     find_path_from st parent f fn dr = find_path_from st' parent f fn dr"
proof (induction st parent f fn dr rule: find_path_from.induct)
  case (1 st parent f fn dr)
  have fnd: "ramdisk_find st' parent nm = ramdisk_find st parent nm" for nm
    using "1.prems"(2) find_in_same_tree [OF "1.prems"(1)]
    by (simp add: ramdisk_find_def split: sum.splits)
  show ?case
  proof (cases "strchr fn CHR ''/''")
    case None
    show ?thesis
    proof (cases "ramdisk_find st parent fn")
      case (Inl e)
      with None fnd [of fn] show ?thesis
        by (simp add: find_path_from.simps [of st] find_path_from.simps [of st'])
    next
      case (Inr f1)
      show ?thesis
      proof (cases "node_at st f1")
        case N: None
        with "1.prems" have "node_at st' f1 = None" by (simp add: same_tree_None)
        with N None Inr fnd [of fn] show ?thesis
          by (simp add: find_path_from.simps [of st] find_path_from.simps [of st'])
      next
        case (Some nf)
        with "1.prems" obtain nf' where "node_at st' f1 = Some nf'" "isdir nf' = isdir nf"
          by (blast dest: same_tree_node)
        with Some None Inr fnd [of fn] show ?thesis
          by (simp add: find_path_from.simps [of st] find_path_from.simps [of st'])
      qed
    qed
  next
    case (Some cur)
    show ?thesis
    proof (cases "cur = 0")
      case True
      with Some "1.IH"(2) [of cur] "1.prems" show ?thesis
        by (simp add: find_path_from.simps [of st parent f fn] find_path_from.simps [of st' parent f fn])
    next
      case False
      show ?thesis
      proof (cases "ramdisk_find st parent (take cur fn)")
        case (Inl e)
        with Some False fnd [of "take cur fn"] show ?thesis
          by (simp add: find_path_from.simps [of st parent f fn] find_path_from.simps [of st' parent f fn])
      next
        case (Inr f1)
        show ?thesis
        proof (cases "node_at st f1")
          case N: None
          with "1.prems" have "node_at st' f1 = None" by (simp add: same_tree_None)
          with N Some False Inr fnd [of "take cur fn"] show ?thesis
            by (simp add: find_path_from.simps [of st parent f fn] find_path_from.simps [of st' parent f fn])
        next
          case S: (Some nf)
          with "1.prems" obtain nf' where nf': "node_at st' f1 = Some nf'" "isdir nf' = isdir nf"
            "isdir nf \<longrightarrow> data nf' = data nf"
            by (blast dest: same_tree_node)
          show ?thesis
          proof (cases "f1 \<noteq> 0 \<and> isdir nf \<and> data nf \<noteq> NullData")
            case True
            then have "dir_children st f1 = dir_children st' f1"
              using S "1.prems"(1) by (intro dir_children_same_tree) simp_all
            with True have "find_path_from st f1 f1 (drop (Suc cur) fn) dr
                = find_path_from st' f1 f1 (drop (Suc cur) fn) dr"
              using "1.IH"(1) [of cur f1 nf] Some False Inr S "1.prems"(1) by simp
            with True S nf' Some False Inr fnd [of "take cur fn"] show ?thesis
              by (simp add: find_path_from.simps [of st parent f fn] find_path_from.simps [of st' parent f fn])
          next
            case F: False
            with S nf' Some False Inr fnd [of "take cur fn"] show ?thesis
              by (auto simp add: find_path_from.simps [of st parent f fn] find_path_from.simps [of st' parent f fn])
          qed
        qed
      qed
    qed
  qed
qed

lemma find_path_from_same_tree:
  assumes "same_tree st st'" "\<And>n. node_at st parent = Some n \<Longrightarrow> isdir n"
  shows "find_path_from st parent f fn dr = find_path_from st' parent f fn dr"
  using assms(1) dir_children_same_tree [OF assms] by (rule find_path_from_same_children)

lemma find_path_from_same_nodes:
  assumes "\<And>a. node_at st' a = node_at st a"
  shows "find_path_from st' parent f fn dr = find_path_from st parent f fn dr"
proof -
  have "same_tree st st'" by (simp add: same_tree_def assms)
  moreover have "dir_children st parent = dir_children st' parent"
    by (simp add: dir_children_def assms)
  ultimately show ?thesis by (simp add: find_path_from_same_children)
qed

section \<open>What open and close do to a node\<close>

lemma malloc_ok_plain: "heap_plan st = [] \<Longrightarrow> malloc_ok st = (True, st)"
  by (simp add: malloc_ok_def)

lemma node_at_upd:
  "nodes st' = (nodes st)[f - 1 := Some n'] \<Longrightarrow> 0 < f \<Longrightarrow> f \<le> length (nodes st) \<Longrightarrow>
     node_at st' a = (if a = f then Some n' else node_at st a)"
  by (auto simp: node_at_def nth_list_update split: nat.splits)

lemma node_at_same: "nodes st' = nodes st \<Longrightarrow> node_at st' a = node_at st a"
  by (cases a) (simp_all add: node_at_def)

lemma fd_at_same: "fds st' = fds st \<Longrightarrow> fd_at st' k = fd_at st k"
  by (cases k) (simp_all add: fd_at_def)

lemma fd_at_app:
  "fds st' = fds st @ [d] \<Longrightarrow>
     fd_at st' k = (if k = Suc (length (fds st)) then d else fd_at st k)"
  by (auto simp: fd_at_def nth_append fd_zero_def split: nat.splits)

lemma fd_at_upd:
  "fds st' = (fds st)[h - 1 := d] \<Longrightarrow> 0 < h \<Longrightarrow> h \<le> length (fds st) \<Longrightarrow>
     fd_at st' k = (if k = h then d else fd_at st k)"
  by (auto simp: fd_at_def nth_list_update split: nat.splits)

lemma open_node_rdonly:
  assumes "node_at st f = Some nf" "\<not> isdir nf" "openfor nf \<noteq> OPENFOR_WRITE" "heap_plan st = []"
  shows "\<exists>st'. open_node st f O_RDONLY = Inr (Suc (length (fds st)), st')
     \<and> nodes st' = (nodes st)[f - 1 := Some (nf\<lparr>openfor := OPENFOR_READ, usage := usage nf + 1\<rparr>)]
     \<and> fds st' = fds st @ [fd_zero\<lparr>filep := f, omode := O_RDONLY\<rparr>]
     \<and> rd_fd_queue st' = rd_fd_queue st @ [Suc (length (fds st))]
     \<and> root st' = root st \<and> heap_plan st' = [] \<and> errno st' = errno st"
  using assms node_at_Some_range [OF assms(1)]
  by (cases f)
     (auto simp: open_node_def open_access_def malloc_ok_plain new_fd_def set_fd_def set_node_def
      fd_zero_def const_defs Let_def)

lemma open_node_wtrunc:
  assumes "node_at st f = Some nf" "\<not> isdir nf" "openfor nf = OPENFOR_NOTHING" "heap_plan st = []"
  shows "\<exists>st'. open_node st f (O_WRONLY OR O_TRUNC) = Inr (Suc (length (fds st)), st')
     \<and> nodes st' = (nodes st)[f - 1 := Some (nf\<lparr>openfor := OPENFOR_WRITE, datasize := rd_blksize,
           data := Block (replicate rd_blksize 0), fsize := 0, usage := usage nf + 1\<rparr>)]
     \<and> fds st' = fds st @ [fd_zero\<lparr>filep := f, omode := O_WRONLY OR O_TRUNC\<rparr>]
     \<and> rd_fd_queue st' = rd_fd_queue st @ [Suc (length (fds st))]
     \<and> root st' = root st \<and> heap_plan st' = [] \<and> errno st' = errno st"
  using assms node_at_Some_range [OF assms(1)]
  by (cases f)
     (auto simp: open_node_def open_access_def malloc_ok_plain new_fd_def set_fd_def set_node_def
      fd_zero_def const_defs Let_def)

lemma open_node_write_on_read:
  assumes "node_at st f = Some nf" "\<not> isdir nf" "openfor nf = OPENFOR_READ" "heap_plan st = []"
  shows "\<exists>st'. open_node st f O_WRONLY = Inr (0, st')
     \<and> nodes st' = nodes st \<and> rd_fd_queue st' = rd_fd_queue st \<and> errno st' = errno st"
  using assms
  by (cases f)
     (auto simp: open_node_def open_access_def malloc_ok_plain new_fd_def set_fd_def set_node_def
      fd_zero_def const_defs Let_def)

lemma close_live:
  assumes "\<not> ramdisk_fd_invalid st h" "node_at st (filep (fd_at st h)) = Some nf"
    "0 < usage nf" "h \<in> set (rd_fd_queue st)"
  shows "\<exists>st'. ramdisk_close st h = Inr (0, st')
     \<and> nodes st' = (nodes st)[filep (fd_at st h) - 1 :=
          Some (if usage nf = 1 then nf\<lparr>usage := 0, openfor := OPENFOR_NOTHING\<rparr>
                else nf\<lparr>usage := usage nf - 1\<rparr>)]
     \<and> fds st' = (fds st)[h - 1 := (fd_at st h)\<lparr>filep := 0\<rparr>]
     \<and> rd_fd_queue st' = removeAll h (rd_fd_queue st)
     \<and> root st' = root st \<and> heap_plan st' = heap_plan st \<and> errno st' = errno st"
  using assms node_at_Some_range [OF assms(2)] fd_valid_range [OF assms(1)]
  apply (simp add: ramdisk_close_def Let_def)
  apply (cases h; cases "filep (fd_at st h)")
  apply (auto simp: set_fd_def set_node_def)
  done

section \<open>The bookkeeping invariant\<close>

lemma node_at_range_iff: "node_at st a = Some n \<Longrightarrow> a \<in> set [1..<Suc (length (nodes st))]"
proof -
  assume "node_at st a = Some n"
  then have "0 < a \<and> a \<le> length (nodes st)" by (rule node_at_Some_range)
  then show ?thesis by (simp only: set_upt atLeastLessThan_iff) arith
qed

lemma rd_inv_iff:
  "rd_inv st \<longleftrightarrow>
     distinct (rd_fd_queue st)
     \<and> (\<forall>h \<in> set (rd_fd_queue st).
           0 < h \<and> h \<le> length (fds st) \<and> node_at st (filep (fd_at st h)) \<noteq> None)
     \<and> (\<forall>a n. node_at st a = Some n \<longrightarrow>
           usage n = int (holders st a) \<and> (openfor n = OPENFOR_NOTHING) = (usage n = 0)
           \<and> openfor n \<in> {OPENFOR_NOTHING, OPENFOR_READ, OPENFOR_WRITE})"
  (is "?L \<longleftrightarrow> ?R")
proof
  assume l: ?L
  have "usage n = int (holders st a) \<and> (openfor n = OPENFOR_NOTHING) = (usage n = 0)
           \<and> openfor n \<in> {OPENFOR_NOTHING, OPENFOR_READ, OPENFOR_WRITE}"
    if "node_at st a = Some n" for a n
  proof -
    from that have "a \<in> set [1..<Suc (length (nodes st))]" by (rule node_at_range_iff)
    with l have "node_ok st a" unfolding rd_inv_def by blast
    with that show ?thesis by (auto simp: node_ok_def)
  qed
  with l show ?R unfolding rd_inv_def by blast
next
  assume r: ?R
  have "node_ok st a" for a
  proof (cases "node_at st a")
    case None
    then show ?thesis by (simp add: node_ok_def)
  next
    case (Some n)
    with r have "usage n = int (holders st a) \<and> (openfor n = OPENFOR_NOTHING) = (usage n = 0)
           \<and> openfor n \<in> {OPENFOR_NOTHING, OPENFOR_READ, OPENFOR_WRITE}" by blast
    then show ?thesis unfolding node_ok_def Some by (simp only: option.case)
  qed
  with r show ?L unfolding rd_inv_def by blast
qed

lemma rd_inv_node:
  "rd_inv st \<Longrightarrow> node_at st a = Some n \<Longrightarrow>
     usage n = int (holders st a) \<and> (openfor n = OPENFOR_NOTHING) = (usage n = 0)
     \<and> openfor n \<in> {OPENFOR_NOTHING, OPENFOR_READ, OPENFOR_WRITE}"
  unfolding rd_inv_iff by blast

lemma rd_inv_queue:
  "rd_inv st \<Longrightarrow> h \<in> set (rd_fd_queue st) \<Longrightarrow>
     0 < h \<and> h \<le> length (fds st) \<and> node_at st (filep (fd_at st h)) \<noteq> None"
  unfolding rd_inv_iff by blast

lemma rd_inv_distinct: "rd_inv st \<Longrightarrow> distinct (rd_fd_queue st)"
  by (simp add: rd_inv_iff)

lemma rd_invI:
  assumes "distinct (rd_fd_queue st)"
    "\<And>h. h \<in> set (rd_fd_queue st) \<Longrightarrow>
       0 < h \<and> h \<le> length (fds st) \<and> node_at st (filep (fd_at st h)) \<noteq> None"
    "\<And>a n. node_at st a = Some n \<Longrightarrow>
       usage n = int (holders st a) \<and> (openfor n = OPENFOR_NOTHING) = (usage n = 0)
       \<and> openfor n \<in> {OPENFOR_NOTHING, OPENFOR_READ, OPENFOR_WRITE}"
  shows "rd_inv st"
  unfolding rd_inv_iff using assms by blast

lemma holders_zero:
  assumes "rd_inv st" "node_at st a = None"
  shows "holders st a = 0"
proof -
  from assms(1) have "\<forall>h \<in> set (rd_fd_queue st). node_at st (filep (fd_at st h)) \<noteq> None"
    by (simp add: rd_inv_iff)
  with assms(2) have "\<forall>h \<in> set (rd_fd_queue st). filep (fd_at st h) \<noteq> a" by auto
  then show ?thesis by (simp add: holders_def)
qed

lemma holders_cong:
  assumes "rd_fd_queue st' = rd_fd_queue st"
    "\<And>h. h \<in> set (rd_fd_queue st) \<Longrightarrow> filep (fd_at st' h) = filep (fd_at st h)"
  shows "holders st' a = holders st a"
proof -
  have "filter (\<lambda>h. filep (fd_at st' h) = a) (rd_fd_queue st)
      = filter (\<lambda>h. filep (fd_at st h) = a) (rd_fd_queue st)"
    by (rule filter_cong) (simp_all add: assms(2))
  then show ?thesis by (simp add: holders_def assms(1))
qed

lemma rd_inv_frame:
  assumes inv: "rd_inv st" and q: "rd_fd_queue st' = rd_fd_queue st"
    and len: "length (fds st) \<le> length (fds st')"
    and fdq: "\<And>h. h \<in> set (rd_fd_queue st) \<Longrightarrow> filep (fd_at st' h) = filep (fd_at st h)"
    and nd: "\<And>a n'. node_at st' a = Some n' \<Longrightarrow>
       (case node_at st a of
          Some n \<Rightarrow> usage n' = usage n \<and> openfor n' = openfor n
        | None \<Rightarrow> usage n' = 0 \<and> openfor n' = OPENFOR_NOTHING)"
    and live: "\<And>a n. node_at st a = Some n \<Longrightarrow> usage n \<noteq> 0 \<Longrightarrow> node_at st' a \<noteq> None"
  shows "rd_inv st'"
proof -
  have h: "holders st' a = holders st a" for a
    using q fdq by (rule holders_cong)
  have a: "distinct (rd_fd_queue st')" using rd_inv_distinct [OF inv] q by simp
  have b: "0 < k \<and> k \<le> length (fds st') \<and> node_at st' (filep (fd_at st' k)) \<noteq> None"
    if "k \<in> set (rd_fd_queue st')" for k
  proof -
    from that q have kq: "k \<in> set (rd_fd_queue st)" by simp
    with rd_inv_queue [OF inv kq] obtain n
      where n: "node_at st (filep (fd_at st k)) = Some n" and k: "0 < k" "k \<le> length (fds st)"
      by auto
    from kq have "holders st (filep (fd_at st k)) \<noteq> 0"
      by (auto simp: holders_def filter_empty_conv)
    with rd_inv_node [OF inv n] have "usage n \<noteq> 0" by simp
    with n live have "node_at st' (filep (fd_at st k)) \<noteq> None" by blast
    with k len fdq [OF kq] show ?thesis by simp
  qed
  have c: "usage n' = int (holders st' a) \<and> (openfor n' = OPENFOR_NOTHING) = (usage n' = 0)
           \<and> openfor n' \<in> {OPENFOR_NOTHING, OPENFOR_READ, OPENFOR_WRITE}"
    if "node_at st' a = Some n'" for a n'
  proof (cases "node_at st a")
    case None
    with nd [OF that] holders_zero [OF inv None] h [of a] show ?thesis by simp
  next
    case (Some n)
    with nd [OF that] have "usage n' = usage n" "openfor n' = openfor n" by simp_all
    with rd_inv_node [OF inv Some] h [of a] show ?thesis by (simp only:)
  qed
  from a b c show ?thesis by (rule rd_invI)
qed

lemma rd_inv_acquire:
  assumes inv: "rd_inv st" and q: "rd_fd_queue st' = rd_fd_queue st @ [h]"
    and fresh: "h \<notin> set (rd_fd_queue st)" "0 < h" "h \<le> length (fds st')"
    and len: "length (fds st) \<le> length (fds st')"
    and fdq: "\<And>k. k \<in> set (rd_fd_queue st) \<Longrightarrow> filep (fd_at st' k) = filep (fd_at st k)"
    and fdh: "filep (fd_at st' h) = f"
    and nf: "node_at st f = Some n" "node_at st' f = Some n'" "usage n' = usage n + 1"
      "openfor n' = OPENFOR_READ \<or> openfor n' = OPENFOR_WRITE"
    and oth: "\<And>a. a \<noteq> f \<Longrightarrow> node_at st' a = node_at st a"
  shows "rd_inv st'"
proof -
  have flt: "filter (\<lambda>k. filep (fd_at st' k) = a) (rd_fd_queue st)
      = filter (\<lambda>k. filep (fd_at st k) = a) (rd_fd_queue st)" for a
    by (rule filter_cong) (simp_all add: fdq)
  have h: "holders st' a = holders st a + (if a = f then 1 else 0)" for a
    using flt [of a] fdh by (auto simp: holders_def q)
  have a: "distinct (rd_fd_queue st')" using rd_inv_distinct [OF inv] q fresh by simp
  have live: "node_at st a \<noteq> None \<Longrightarrow> node_at st' a \<noteq> None" for a
    using oth [of a] nf by (cases "a = f") auto
  have b: "0 < k \<and> k \<le> length (fds st') \<and> node_at st' (filep (fd_at st' k)) \<noteq> None"
    if "k \<in> set (rd_fd_queue st')" for k
  proof (cases "k = h")
    case True
    with fresh fdh nf show ?thesis by simp
  next
    case False
    with that q have kq: "k \<in> set (rd_fd_queue st)" by simp
    with rd_inv_queue [OF inv kq]
    have "0 < k" "k \<le> length (fds st)" "node_at st (filep (fd_at st k)) \<noteq> None" by auto
    with len fdq [OF kq] live show ?thesis by simp
  qed
  have c: "usage m = int (holders st' a) \<and> (openfor m = OPENFOR_NOTHING) = (usage m = 0)
           \<and> openfor m \<in> {OPENFOR_NOTHING, OPENFOR_READ, OPENFOR_WRITE}"
    if "node_at st' a = Some m" for a m
  proof (cases "a = f")
    case True
    with that nf have m: "m = n'" by simp
    from rd_inv_node [OF inv nf(1)] have "usage n = int (holders st f)" by simp
    with nf(3) h [of f] have u: "usage n' = int (holders st' f)" "usage n' \<noteq> 0" by simp_all
    from nf(4) have o: "openfor n' \<noteq> OPENFOR_NOTHING"
      "openfor n' \<in> {OPENFOR_NOTHING, OPENFOR_READ, OPENFOR_WRITE}"
      by (auto simp: const_defs)
    from u o m True show ?thesis by simp
  next
    case False
    with that oth have "node_at st a = Some m" by simp
    from rd_inv_node [OF inv this] h [of a] False show ?thesis by (simp only: if_False add_0_right)
  qed
  from a b c show ?thesis by (rule rd_invI)
qed

lemma filter_removeAll_count:
  "distinct q \<Longrightarrow> h \<in> set q \<Longrightarrow>
     length (filter P q) = length (filter P (removeAll h q)) + (if P h then 1 else 0)"
proof (induction q)
  case Nil
  then show ?case by simp
next
  case (Cons x q)
  show ?case
  proof (cases "x = h")
    case True
    with Cons.prems have "h \<notin> set q" by simp
    then have "removeAll h q = q" by simp
    with True show ?thesis by simp
  next
    case False
    with Cons show ?thesis by simp
  qed
qed

lemma rd_inv_release:
  assumes inv: "rd_inv st" and hq: "h \<in> set (rd_fd_queue st)"
    and q: "rd_fd_queue st' = removeAll h (rd_fd_queue st)"
    and len: "length (fds st) \<le> length (fds st')"
    and fdq: "\<And>k. k \<in> set (rd_fd_queue st) \<Longrightarrow> k \<noteq> h \<Longrightarrow> filep (fd_at st' k) = filep (fd_at st k)"
    and fdh: "filep (fd_at st h) = f"
    and nf: "node_at st f = Some n" "node_at st' f = Some n'" "usage n' = usage n - 1"
      "openfor n' = (if usage n = 1 then OPENFOR_NOTHING else openfor n)"
    and oth: "\<And>a. a \<noteq> f \<Longrightarrow> node_at st' a = node_at st a"
  shows "rd_inv st'"
proof -
  have flt: "filter (\<lambda>k. filep (fd_at st' k) = a) (removeAll h (rd_fd_queue st))
      = filter (\<lambda>k. filep (fd_at st k) = a) (removeAll h (rd_fd_queue st))" for a
    by (rule filter_cong) (simp_all add: fdq)
  have h: "holders st a = holders st' a + (if a = f then 1 else 0)" for a
    using filter_removeAll_count [of "rd_fd_queue st" h "\<lambda>k. filep (fd_at st k) = a"]
      rd_inv_distinct [OF inv] hq flt [of a] fdh
    by (auto simp: holders_def q)
  have a: "distinct (rd_fd_queue st')"
    using rd_inv_distinct [OF inv] q by (simp add: distinct_removeAll)
  have live: "node_at st a \<noteq> None \<Longrightarrow> node_at st' a \<noteq> None" for a
    using oth [of a] nf by (cases "a = f") auto
  have b: "0 < k \<and> k \<le> length (fds st') \<and> node_at st' (filep (fd_at st' k)) \<noteq> None"
    if "k \<in> set (rd_fd_queue st')" for k
  proof -
    from that q have kq: "k \<in> set (rd_fd_queue st)" "k \<noteq> h" by auto
    with rd_inv_queue [OF inv kq(1)]
    have "0 < k" "k \<le> length (fds st)" "node_at st (filep (fd_at st k)) \<noteq> None" by auto
    with len fdq [OF kq] live show ?thesis by simp
  qed
  have c: "usage m = int (holders st' a) \<and> (openfor m = OPENFOR_NOTHING) = (usage m = 0)
           \<and> openfor m \<in> {OPENFOR_NOTHING, OPENFOR_READ, OPENFOR_WRITE}"
    if "node_at st' a = Some m" for a m
  proof (cases "a = f")
    case True
    with that nf have m: "m = n'" by simp
    from rd_inv_node [OF inv nf(1)]
    have n: "usage n = int (holders st f)" "(openfor n = OPENFOR_NOTHING) = (usage n = 0)"
      "openfor n \<in> {OPENFOR_NOTHING, OPENFOR_READ, OPENFOR_WRITE}" by blast+
    from n(1) nf(3) h [of f] have u: "usage n' = int (holders st' f)" by simp
    have o: "(openfor n' = OPENFOR_NOTHING) = (usage n' = 0)"
      using n(1,2) nf(3,4) h [of f] by (cases "usage n = 1") simp_all
    have p: "openfor n' \<in> {OPENFOR_NOTHING, OPENFOR_READ, OPENFOR_WRITE}"
      using n(3) nf(4) by (cases "usage n = 1") simp_all
    from u o p m True show ?thesis by simp
  next
    case False
    with that oth have "node_at st a = Some m" by simp
    from rd_inv_node [OF inv this] h [of a] False show ?thesis by (simp only: if_False add_0_right)
  qed
  from a b c show ?thesis by (rule rd_invI)
qed

lemma node_at_plan [simp]: "node_at (st\<lparr>heap_plan := x\<rparr>) a = node_at st a"
  and node_at_errno [simp]: "node_at (st\<lparr>errno := e\<rparr>) a = node_at st a"
  and node_at_queue [simp]: "node_at (st\<lparr>rd_fd_queue := q\<rparr>) a = node_at st a"
  and node_at_root [simp]: "node_at (st\<lparr>root := r\<rparr>) a = node_at st a"
  and node_at_fds [simp]: "node_at (st\<lparr>fds := ds\<rparr>) a = node_at st a"
  by (rule node_at_same, simp)+

lemma fd_at_plan [simp]: "fd_at (st\<lparr>heap_plan := x\<rparr>) k = fd_at st k"
  and fd_at_errno [simp]: "fd_at (st\<lparr>errno := e\<rparr>) k = fd_at st k"
  and fd_at_queue [simp]: "fd_at (st\<lparr>rd_fd_queue := q\<rparr>) k = fd_at st k"
  and fd_at_root [simp]: "fd_at (st\<lparr>root := r\<rparr>) k = fd_at st k"
  and fd_at_nodes [simp]: "fd_at (st\<lparr>nodes := ns\<rparr>) k = fd_at st k"
  by (rule fd_at_same, simp)+

lemma malloc_ok_snd: "snd (malloc_ok st) = st\<lparr>heap_plan := tl (heap_plan st)\<rparr>"
  by (cases "heap_plan st") (simp_all add: malloc_ok_def)

lemma malloc_ok_obs [simp]:
  "node_at (snd (malloc_ok st)) a = node_at st a" "fd_at (snd (malloc_ok st)) k = fd_at st k"
  "nodes (snd (malloc_ok st)) = nodes st" "fds (snd (malloc_ok st)) = fds st"
  "rd_fd_queue (snd (malloc_ok st)) = rd_fd_queue st" "root (snd (malloc_ok st)) = root st"
  "errno (snd (malloc_ok st)) = errno st"
  by (simp_all add: malloc_ok_snd)

lemma set_errno_obs [simp]:
  "fd_at (set_errno e st) k = fd_at st k"
  "nodes (set_errno e st) = nodes st" "fds (set_errno e st) = fds st"
  "rd_fd_queue (set_errno e st) = rd_fd_queue st" "root (set_errno e st) = root st"
  "heap_plan (set_errno e st) = heap_plan st"
  by (simp_all add: set_errno_def)

lemma set_fd_obs [simp]:
  "nodes (set_fd h d st) = nodes st" "rd_fd_queue (set_fd h d st) = rd_fd_queue st"
  "root (set_fd h d st) = root st" "heap_plan (set_fd h d st) = heap_plan st"
  "errno (set_fd h d st) = errno st" "length (fds (set_fd h d st)) = length (fds st)"
  by (simp_all add: set_fd_def split: nat.splits)

lemma set_node_obs [simp]:
  "fds (set_node a n st) = fds st" "rd_fd_queue (set_node a n st) = rd_fd_queue st"
  "root (set_node a n st) = root st" "heap_plan (set_node a n st) = heap_plan st"
  "errno (set_node a n st) = errno st" "length (nodes (set_node a n st)) = length (nodes st)"
  by (simp_all add: set_node_def split: nat.splits)

lemma new_fd_obs [simp]:
  "fst (new_fd d st) = Suc (length (fds st))"
  "node_at (snd (new_fd d st)) a = node_at st a"
  "fd_at (snd (new_fd d st)) k = (if k = Suc (length (fds st)) then d else fd_at st k)"
  "nodes (snd (new_fd d st)) = nodes st" "length (fds (snd (new_fd d st))) = Suc (length (fds st))"
  "rd_fd_queue (snd (new_fd d st)) = rd_fd_queue st" "root (snd (new_fd d st)) = root st"
  "heap_plan (snd (new_fd d st)) = heap_plan st" "errno (snd (new_fd d st)) = errno st"
  by (simp_all add: new_fd_def fd_at_app)

lemma node_at_app:
  "nodes st' = nodes st @ [y] \<Longrightarrow>
     node_at st' a = (if a = Suc (length (nodes st)) then y else node_at st a)"
  by (auto simp: node_at_def nth_append split: nat.splits)

lemma new_node_obs [simp]:
  "fst (new_node n st) = Suc (length (nodes st))"
  "node_at (snd (new_node n st)) a = (if a = Suc (length (nodes st)) then Some n else node_at st a)"
  "fd_at (snd (new_node n st)) k = fd_at st k"
  "fds (snd (new_node n st)) = fds st" "length (nodes (snd (new_node n st))) = Suc (length (nodes st))"
  "rd_fd_queue (snd (new_node n st)) = rd_fd_queue st" "root (snd (new_node n st)) = root st"
  "heap_plan (snd (new_node n st)) = heap_plan st" "errno (snd (new_node n st)) = errno st"
  by (simp_all add: new_node_def node_at_app)

lemma rd_inv_obs:
  assumes "\<And>a. node_at st' a = node_at st a" "\<And>k. fd_at st' k = fd_at st k"
    "rd_fd_queue st' = rd_fd_queue st" "length (fds st') = length (fds st)"
  shows "rd_inv st' = rd_inv st"
  by (simp add: rd_inv_iff holders_def assms)

lemma same_tree_obs: "(\<And>a. node_at st' a = node_at st a) \<Longrightarrow> same_tree st st'"
  by (simp add: same_tree_def)

lemma find_path_obs:
  assumes "\<And>a. node_at st' a = node_at st a"
  shows "ramdisk_find_path st' p fn dr = ramdisk_find_path st p fn dr"
  by (simp add: ramdisk_find_path_def find_path_from_same_nodes [OF assms])

lemma node_at_fresh [simp]: "node_at st (Suc (length (nodes st))) = None"
  by (simp add: node_at_def)

lemma get_parent_fields:
  assumes "ramdisk_get_parent st parent fn = Inr (rc, pdir, nm, st1)"
  shows "nodes st1 = nodes st \<and> fds st1 = fds st \<and> rd_fd_queue st1 = rd_fd_queue st
     \<and> root st1 = root st"
  using assms
  by (auto simp: ramdisk_get_parent_def split_beta Let_def
      split: option.splits if_splits sum.splits)

lemma keeps_counts_node:
  "keeps_counts st st' \<Longrightarrow> node_at st' a = Some n' \<Longrightarrow>
     (case node_at st a of
        Some n \<Rightarrow> usage n' = usage n \<and> openfor n' = openfor n
      | None \<Rightarrow> usage n' = 0 \<and> openfor n' = OPENFOR_NOTHING)"
  unfolding keeps_counts_def by blast

lemma keeps_counts_live:
  "keeps_counts st st' \<Longrightarrow> node_at st a \<noteq> None \<Longrightarrow> node_at st' a \<noteq> None"
  unfolding keeps_counts_def by blast

lemma keeps_counts_fd:
  "keeps_counts st st' \<Longrightarrow> 0 < k \<Longrightarrow> k \<le> length (fds st) \<Longrightarrow>
     filep (fd_at st' k) = filep (fd_at st k)"
  unfolding keeps_counts_def by blast

lemma keeps_counts_queue:
  "keeps_counts st st' \<Longrightarrow> rd_fd_queue st' = rd_fd_queue st \<and> length (fds st) \<le> length (fds st')"
  unfolding keeps_counts_def by blast

lemma keeps_counts_inv:
  assumes "rd_inv st" "keeps_counts st st'"
  shows "rd_inv st'"
proof (rule rd_inv_frame [OF assms(1)])
  show "rd_fd_queue st' = rd_fd_queue st" "length (fds st) \<le> length (fds st')"
    using keeps_counts_queue [OF assms(2)] by simp_all
  show "filep (fd_at st' h) = filep (fd_at st h)" if "h \<in> set (rd_fd_queue st)" for h
    using rd_inv_queue [OF assms(1) that] keeps_counts_fd [OF assms(2)] by simp
  show "case node_at st a of
          Some n \<Rightarrow> usage n' = usage n \<and> openfor n' = openfor n
        | None \<Rightarrow> usage n' = 0 \<and> openfor n' = OPENFOR_NOTHING"
    if "node_at st' a = Some n'" for a n'
    using keeps_counts_node [OF assms(2) that] .
  show "node_at st' a \<noteq> None" if "node_at st a = Some n" for a n
    using keeps_counts_live [OF assms(2), of a] that by simp
qed

lemma keeps_counts_refl [simp]: "keeps_counts st st"
  by (auto simp: keeps_counts_def split: option.splits)

lemma keeps_counts_trans:
  assumes "keeps_counts a b" "keeps_counts b c"
  shows "keeps_counts a c"
  unfolding keeps_counts_def
proof (intro conjI allI impI)
  show "rd_fd_queue c = rd_fd_queue a"
    using keeps_counts_queue [OF assms(1)] keeps_counts_queue [OF assms(2)] by simp
  show "length (fds a) \<le> length (fds c)"
    using keeps_counts_queue [OF assms(1)] keeps_counts_queue [OF assms(2)] by simp
  show "filep (fd_at c k) = filep (fd_at a k)" if "0 < k \<and> k \<le> length (fds a)" for k
    using keeps_counts_fd [OF assms(1), of k] keeps_counts_fd [OF assms(2), of k]
      keeps_counts_queue [OF assms(1)] that by simp
  show "node_at c x \<noteq> None" if "node_at a x \<noteq> None" for x
    using keeps_counts_live [OF assms(2), of x] keeps_counts_live [OF assms(1), of x] that
    by blast
  show "case node_at a x of
          Some n \<Rightarrow> usage n' = usage n \<and> openfor n' = openfor n
        | None \<Rightarrow> usage n' = 0 \<and> openfor n' = OPENFOR_NOTHING"
    if c: "node_at c x = Some n'" for x n'
  proof (cases "node_at b x")
    case None
    with keeps_counts_live [OF assms(1), of x] have "node_at a x = None" by fastforce
    moreover from keeps_counts_node [OF assms(2) c] None
    have "usage n' = 0 \<and> openfor n' = OPENFOR_NOTHING" by simp
    ultimately show ?thesis by simp
  next
    case (Some m)
    with keeps_counts_node [OF assms(2) c]
    have m: "usage n' = usage m \<and> openfor n' = openfor m" by simp
    from keeps_counts_node [OF assms(1) Some] m show ?thesis
      by (simp split: option.splits)
  qed
qed

lemma keeps_counts_fields:
  assumes "nodes st' = nodes st" "fds st' = fds st" "rd_fd_queue st' = rd_fd_queue st"
  shows "keeps_counts st st'"
proof -
  have n: "node_at st' a = node_at st a" for a using assms(1) by (rule node_at_same)
  have f: "fd_at st' k = fd_at st k" for k using assms(2) by (rule fd_at_same)
  show ?thesis by (auto simp: keeps_counts_def n f assms split: option.splits)
qed

lemma create_file_keeps:
  assumes "ramdisk_create_file st parent fn dr = Inr (f, st')"
  shows "keeps_counts st st' \<and> root st' = root st"
proof (cases "ramdisk_get_parent st parent fn")
  case (Inl e)
  with assms show ?thesis by (simp add: ramdisk_create_file_def)
next
  case (Inr r)
  obtain rc pdir nm st1 where r: "r = (rc, pdir, nm, st1)" by (cases r) auto
  from get_parent_fields [OF Inr [unfolded r]]
  have gp: "nodes st1 = nodes st" "fds st1 = fds st" "rd_fd_queue st1 = rd_fd_queue st"
    "root st1 = root st" by simp_all
  have n1: "node_at st1 a = node_at st a" for a using gp(1) by (rule node_at_same)
  have f1: "fd_at st1 k = fd_at st k" for k using gp(2) by (rule fd_at_same)
  show ?thesis
  proof (cases "rc < 0 \<or> \<not> fst (malloc_ok st1) \<or> \<not> fst (malloc_ok (snd (malloc_ok st1)))
      \<or> \<not> fst (malloc_ok (snd (malloc_ok (snd (malloc_ok st1)))))")
    case True
    with assms Inr r have "nodes st' = nodes st \<and> fds st' = fds st
        \<and> rd_fd_queue st' = rd_fd_queue st \<and> root st' = root st"
      using gp by (auto simp: ramdisk_create_file_def split_beta Let_def split: if_splits)
    then show ?thesis by (simp add: keeps_counts_fields)
  next
    case False
    define st4 where "st4 = snd (malloc_ok (snd (malloc_ok (snd (malloc_ok st1)))))"
    define new where "new = \<lparr>name = nm, fsize = 0, isdir = dr, openfor = OPENFOR_NOTHING,
        usage = 0, data = (if \<not> dr then Block (replicate rd_blksize 0) else DirList []),
        datasize = (if \<not> dr then rd_blksize else 0)\<rparr>"
    define st5 where "st5 = snd (new_node new st4)"
    have ins: "list_insert_head pdir (Suc (length (nodes st))) st5 = Inr st'"
      and f: "f = Suc (length (nodes st))"
      using assms Inr r False gp
      by (auto simp: ramdisk_create_file_def split_beta Let_def st4_def st5_def new_def
          split: sum.splits)
    have n5: "node_at st5 a = (if a = Suc (length (nodes st)) then Some new else node_at st a)" for a
      by (simp add: st5_def st4_def gp n1)
    have o5: "fd_at st5 k = fd_at st k" "rd_fd_queue st5 = rd_fd_queue st" "root st5 = root st"
      "fds st5 = fds st" "length (nodes st5) = Suc (length (nodes st))" for k
      by (simp_all add: st5_def st4_def gp f1)
    from ins obtain nd cs where nd: "node_at st5 pdir = Some nd"
      and st': "st' = set_node pdir (nd\<lparr>data := DirList (f # cs)\<rparr>) st5"
      by (auto simp: list_insert_head_def f split: sum.splits option.splits)
    from nd have rg: "0 < pdir" "pdir \<le> length (nodes st5)"
      using node_at_Some_range by blast+
    have n': "node_at st' a = (if a = pdir then Some (nd\<lparr>data := DirList (f # cs)\<rparr>)
        else node_at st5 a)" for a
      using rg by (simp add: st' node_at_set_node)
    have o': "rd_fd_queue st' = rd_fd_queue st" "fds st' = fds st" "root st' = root st"
      by (simp_all add: st' o5)
    have "keeps_counts st st'"
      unfolding keeps_counts_def
      using nd
      by (auto simp: n' n5 o' fd_at_same [OF o'(2)] new_def split: option.splits if_splits)
    then show ?thesis by (simp add: o')
  qed
qed

lemma keeps_counts_errno [simp]: "keeps_counts st (set_errno e st)"
  by (rule keeps_counts_fields) simp_all

lemma keeps_counts_malloc [simp]: "keeps_counts st (snd (malloc_ok st))"
  by (rule keeps_counts_fields) simp_all

lemma keeps_counts_new_fd [simp]: "keeps_counts st (snd (new_fd d st))"
  by (auto simp: keeps_counts_def split: option.splits)

lemma open_lookup_keeps:
  assumes "open_lookup st fn mode = Inr (f, st1)"
  shows "keeps_counts st st1 \<and> root st1 = root st"
  using assms create_file_keeps [of st "root st" fn "mode AND O_DIR \<noteq> 0" f st1]
  by (auto simp: open_lookup_def split: if_splits sum.splits)

lemma open_access_shape:
  assumes "open_access st nf mode = Inr (Some (nf1, p, st4))"
  shows "usage nf1 = usage nf \<and> (openfor nf1 = OPENFOR_READ \<or> openfor nf1 = OPENFOR_WRITE)
     \<and> name nf1 = name nf \<and> isdir nf1 = isdir nf
     \<and> (st4 = st \<or> st4 = snd (malloc_ok st))"
  using assms
  by (auto simp: open_access_def Let_def split_beta split: if_splits)

lemma open_access_none:
  assumes "open_access st nf mode = Inr None"
  shows "openfor nf = OPENFOR_READ"
  using assms
  by (auto simp: open_access_def Let_def split_beta split: if_splits)

lemma open_node_inv:
  assumes inv: "rd_inv st" and op: "open_node st f mode = Inr (h, st')"
  shows "rd_inv st'"
proof (cases "node_at st f")
  case None
  with op show ?thesis by (simp add: open_node_def)
next
  case (Some nf)
  note rg = node_at_Some_range [OF Some]
  show ?thesis
  proof (cases "(isdir nf \<and> mode AND O_DIR = 0) \<or> openfor nf = OPENFOR_WRITE
      \<or> \<not> fst (malloc_ok st)")
    case True
    with op Some have "st' = set_errno EINVAL st \<or> st' = st
        \<or> st' = set_errno ENOMEM (snd (malloc_ok st))"
      by (auto simp: open_node_def split_beta split: if_splits)
    then have "keeps_counts st st'"
      by (auto intro: keeps_counts_trans [OF keeps_counts_malloc keeps_counts_errno])
    with inv show ?thesis by (rule keeps_counts_inv)
  next
    case False
    then have c: "\<not> (isdir nf \<and> mode AND O_DIR = 0)" "openfor nf \<noteq> OPENFOR_WRITE"
      "fst (malloc_ok st)" by simp_all
    define st2 where "st2 = snd (malloc_ok st)"
    define fd where "fd = fd_zero\<lparr>filep := f, dir := (mode AND O_DIR \<noteq> 0), omode := mode\<rparr>"
    define st3 where "st3 = snd (new_fd fd st2)"
    define h0 where "h0 = Suc (length (fds st))"
    have k3: "keeps_counts st st3"
      unfolding st3_def st2_def
      by (rule keeps_counts_trans [OF keeps_counts_malloc keeps_counts_new_fd])
    note defs = st3_def st2_def fd_def
    show ?thesis
    proof (cases "open_access st3 nf mode")
      case (Inl e)
      have "open_node st f mode = Inl e"
        by (simp add: open_node_def Some c split_beta Let_def Inl [unfolded defs])
      with op show ?thesis by simp
    next
      case (Inr r)
      show ?thesis
      proof (cases r)
        case None
        have "open_node st f mode = Inr (0, st3)"
          by (simp add: open_node_def \<open>node_at st f = Some nf\<close> c split_beta Let_def
              Inr [unfolded None defs] defs)
        with op have "st' = st3" by simp
        with keeps_counts_inv [OF inv k3] show ?thesis by simp
      next
        case S: (Some t)
        obtain nf1 p st4 where t: "t = (nf1, p, st4)" by (cases t) auto
        from open_access_shape [OF Inr [unfolded S t]]
        have a: "usage nf1 = usage nf" "openfor nf1 = OPENFOR_READ \<or> openfor nf1 = OPENFOR_WRITE"
          "st4 = st3 \<or> st4 = snd (malloc_ok st3)" by simp_all
        define q where "q = (if mode AND O_DIR \<noteq> 0 then list_first (data nf1) else Inr p)"
        have eq: "open_node st f mode = (case q of Inl e \<Rightarrow> Inl e
            | Inr p1 \<Rightarrow> Inr (h0, (set_node f (nf1\<lparr>usage := usage nf1 + 1\<rparr>)
                   (set_fd h0 (fd\<lparr>ptr := p1\<rparr>) st4))\<lparr>rd_fd_queue := rd_fd_queue st4 @ [h0]\<rparr>))"
          by (simp add: open_node_def \<open>node_at st f = Some nf\<close> c split_beta Let_def
              Inr [unfolded S t defs] defs h0_def q_def split: sum.splits)
        from op eq have e2: "(case q of Inl e \<Rightarrow> Inl e
            | Inr p1 \<Rightarrow> Inr (h0, (set_node f (nf1\<lparr>usage := usage nf1 + 1\<rparr>)
                   (set_fd h0 (fd\<lparr>ptr := p1\<rparr>) st4))\<lparr>rd_fd_queue := rd_fd_queue st4 @ [h0]\<rparr>))
            = Inr (h, st')" by simp
        then obtain p1 where q: "q = Inr p1" by (cases q) simp_all
        from e2 have st': "st' = (set_node f (nf1\<lparr>usage := usage nf1 + 1\<rparr>)
              (set_fd h0 (fd\<lparr>ptr := p1\<rparr>) st4))\<lparr>rd_fd_queue := rd_fd_queue st4 @ [h0]\<rparr>"
          and h: "h = h0"
          unfolding q by auto
        have o4: "node_at st4 a = node_at st a" "rd_fd_queue st4 = rd_fd_queue st"
          "length (fds st4) = Suc (length (fds st))"
          "fd_at st4 k = (if k = h0 then fd else fd_at st k)" for a k
          using a(3) by (auto simp: st3_def st2_def h0_def)
        show ?thesis
        proof (rule rd_inv_acquire [OF inv, where h = h0 and f = f and n = nf
              and n' = "nf1\<lparr>usage := usage nf1 + 1\<rparr>"])
          show "rd_fd_queue st' = rd_fd_queue st @ [h0]" by (simp add: st' o4)
          show "h0 \<notin> set (rd_fd_queue st)"
            using rd_inv_queue [OF inv, of h0] by (auto simp: h0_def)
          show "0 < h0" by (simp add: h0_def)
          show "h0 \<le> length (fds st')" by (simp add: st' o4 h0_def)
          show "length (fds st) \<le> length (fds st')" by (simp add: st' o4)
          show "filep (fd_at st' k) = filep (fd_at st k)" if "k \<in> set (rd_fd_queue st)" for k
            using rd_inv_queue [OF inv that] by (auto simp: st' fd_at_set_fd o4 h0_def)
          show "filep (fd_at st' h0) = f"
            by (simp add: st' fd_at_set_fd o4 h0_def fd_def)
          show "node_at st f = Some nf" by fact
          show "node_at st' f = Some (nf1\<lparr>usage := usage nf1 + 1\<rparr>)"
            using rg a(3) by (auto simp: st' node_at_set_node st3_def st2_def)
          show "usage (nf1\<lparr>usage := usage nf1 + 1\<rparr>) = usage nf + 1" by (simp add: a)
          show "openfor (nf1\<lparr>usage := usage nf1 + 1\<rparr>) = OPENFOR_READ
              \<or> openfor (nf1\<lparr>usage := usage nf1 + 1\<rparr>) = OPENFOR_WRITE"
            using a(2) by simp
          show "node_at st' b = node_at st b" if "b \<noteq> f" for b
            using that by (simp add: st' node_at_set_node o4)
        qed
      qed
    qed
  qed
qed

lemma open_inv:
  assumes "rd_inv st" "ramdisk_open st p mode = Inr (h, st')"
  shows "rd_inv st'"
proof -
  from assms(2) consider
      (early) "st' = set_errno EISDIR st"
    | (null) st1 where "open_lookup st (skip_slash p) mode = Inr (0, st1)" "st' = st1"
    | (node) f st1 where "open_lookup st (skip_slash p) mode = Inr (f, st1)"
        "open_node st1 f mode = Inr (h, st')"
    by (auto simp: ramdisk_open_def Let_def split: if_splits sum.splits)
  then show ?thesis
  proof cases
    case early
    with keeps_counts_inv [OF assms(1) keeps_counts_errno] show ?thesis by simp
  next
    case null
    from open_lookup_keeps [OF null(1)] have "keeps_counts st st1" by simp
    with assms(1) null(2) show ?thesis by (auto intro: keeps_counts_inv)
  next
    case node
    from open_lookup_keeps [OF node(1)] have "keeps_counts st st1" by simp
    with assms(1) have "rd_inv st1" by (rule keeps_counts_inv)
    then show ?thesis using node(2) by (rule open_node_inv)
  qed
qed

lemma close_inv:
  assumes inv: "rd_inv st" and cl: "ramdisk_close st h = Inr (rc, st')"
  shows "rd_inv st'"
proof (cases "ramdisk_fd_invalid st h")
  case True
  with cl have "st' = set_errno EBADF st" by (simp add: ramdisk_close_def)
  with keeps_counts_inv [OF inv keeps_counts_errno] show ?thesis by simp
next
  case False
  define f where "f = filep (fd_at st h)"
  from cl False obtain nf where nf: "node_at st f = Some nf"
    by (auto simp: ramdisk_close_def Let_def f_def split: option.splits)
  from cl False nf have hq: "h \<in> set (rd_fd_queue st)" and u: "0 \<le> usage nf - 1"
    by (auto simp: ramdisk_close_def Let_def f_def split: if_splits)
  then have up: "0 < usage nf" by simp
  from close_live [OF False nf [unfolded f_def] up hq] cl
  have c: "nodes st' = (nodes st)[f - 1 :=
          Some (if usage nf = 1 then nf\<lparr>usage := 0, openfor := OPENFOR_NOTHING\<rparr>
                else nf\<lparr>usage := usage nf - 1\<rparr>)]"
     "fds st' = (fds st)[h - 1 := (fd_at st h)\<lparr>filep := 0\<rparr>]"
     "rd_fd_queue st' = removeAll h (rd_fd_queue st)"
    by (auto simp: f_def)
  note rg = node_at_Some_range [OF nf] fd_valid_range [OF False]
  show ?thesis
  proof (rule rd_inv_release [OF inv hq, where f = f and n = nf])
    show "rd_fd_queue st' = removeAll h (rd_fd_queue st)" by fact
    show "length (fds st) \<le> length (fds st')" by (simp add: c)
    show "filep (fd_at st' k) = filep (fd_at st k)" if "k \<in> set (rd_fd_queue st)" "k \<noteq> h" for k
      using that rg by (simp add: fd_at_upd [OF c(2)])
    show "filep (fd_at st h) = f" by (simp add: f_def)
    show "node_at st f = Some nf" by fact
    show "node_at st' f = Some (if usage nf = 1 then nf\<lparr>usage := 0, openfor := OPENFOR_NOTHING\<rparr>
                else nf\<lparr>usage := usage nf - 1\<rparr>)"
      using rg by (simp add: node_at_upd [OF c(1)])
    show "usage (if usage nf = 1 then nf\<lparr>usage := 0, openfor := OPENFOR_NOTHING\<rparr>
                else nf\<lparr>usage := usage nf - 1\<rparr>) = usage nf - 1" by simp
    show "openfor (if usage nf = 1 then nf\<lparr>usage := 0, openfor := OPENFOR_NOTHING\<rparr>
                else nf\<lparr>usage := usage nf - 1\<rparr>)
        = (if usage nf = 1 then OPENFOR_NOTHING else openfor nf)" by simp
    show "node_at st' a = node_at st a" if "a \<noteq> f" for a
      using that rg by (simp add: node_at_upd [OF c(1)])
  qed
qed

section \<open>Resolving a path to a file\<close>

lemma find_path_from_file:
  "find_path_from st parent g fn dr = Inr f \<Longrightarrow> \<not> dr \<Longrightarrow> f \<noteq> 0 \<Longrightarrow>
     \<exists>n. node_at st f = Some n \<and> \<not> isdir n"
proof (induction st parent g fn dr rule: find_path_from.induct)
  case (1 st parent g fn dr)
  show ?case
  proof (cases "strchr fn CHR ''/''")
    case None
    with "1.prems" show ?thesis
      by (auto simp: find_path_from.simps [of st parent g fn]
          split: if_splits sum.splits option.splits)
  next
    case (Some cur)
    show ?thesis
    proof (cases "cur = 0")
      case True
      with Some "1.prems" "1.IH"(2) [of cur] show ?thesis
        by (simp add: find_path_from.simps [of st parent g fn])
    next
      case False
      with Some "1.prems" obtain f1 nf where
        "ramdisk_find st parent (take cur fn) = Inr f1" "f1 \<noteq> 0" "node_at st f1 = Some nf"
        "isdir nf" "data nf \<noteq> NullData"
        "find_path_from st f1 f1 (drop (Suc cur) fn) dr = Inr f"
        by (auto simp: find_path_from.simps [of st parent g fn]
            split: if_splits sum.splits option.splits)
      with Some False "1.IH"(1) [of cur f1 nf] "1.prems"(2,3) show ?thesis by simp
    qed
  qed
qed

lemma resolves_node:
  "resolves st fn f \<Longrightarrow> \<exists>n. node_at st f = Some n \<and> \<not> isdir n"
  unfolding resolves_def ramdisk_find_path_def by (blast dest: find_path_from_file)

lemma resolves_same_tree:
  assumes "resolves st fn f" "same_tree st st'" "root st' = root st"
  shows "resolves st' fn f"
proof -
  from assms(1) obtain r where r: "node_at st (root st) = Some r" "isdir r"
    and p: "fn \<noteq> []" "f \<noteq> 0" "ramdisk_find_path st (root st) fn False = Inr f"
    by (auto simp: resolves_def split: option.splits)
  from same_tree_node [OF assms(2) r(1)] r(2)
  obtain r' where r': "node_at st' (root st) = Some r'" "isdir r'" by auto
  have "find_path_from st (root st) 0 fn False = find_path_from st' (root st) 0 fn False"
    using assms(2) r by (intro find_path_from_same_tree) auto
  with p r' assms(3) show ?thesis
    by (simp add: resolves_def ramdisk_find_path_def)
qed

lemma same_tree_update:
  assumes "node_at st f = Some n" "skel n' = skel n"
    "\<And>a. node_at st' a = (if a = f then Some n' else node_at st a)"
  shows "same_tree st st'"
  using assms by (simp add: same_tree_def)

lemma open_found:
  assumes "resolves st (skip_slash p) f" "mode AND O_DIR = 0"
  shows "ramdisk_open st p mode = open_node st f mode"
proof -
  from assms(1) have "root st \<noteq> 0"
    by (auto simp: resolves_def split: option.splits dest: node_at_Some_range)
  with assms show ?thesis
    by (simp add: ramdisk_open_def open_lookup_def resolves_def Let_def)
qed

lemma open_rdonly_step:
  assumes res: "resolves st (skip_slash p) f"
    and nf: "node_at st f = Some nf" "openfor nf \<noteq> OPENFOR_WRITE" and mem: "heap_plan st = []"
  shows "\<exists>st'. ramdisk_open st p O_RDONLY = Inr (Suc (length (fds st)), st')
     \<and> (\<forall>a. node_at st' a = (if a = f
            then Some (nf\<lparr>openfor := OPENFOR_READ, usage := usage nf + 1\<rparr>) else node_at st a))
     \<and> (\<forall>k. fd_at st' k = (if k = Suc (length (fds st))
            then fd_zero\<lparr>filep := f, omode := O_RDONLY\<rparr> else fd_at st k))
     \<and> length (fds st') = Suc (length (fds st))
     \<and> rd_fd_queue st' = rd_fd_queue st @ [Suc (length (fds st))]
     \<and> root st' = root st \<and> heap_plan st' = []
     \<and> resolves st' (skip_slash p) f"
proof -
  from resolves_node [OF res] nf have nd: "\<not> isdir nf" by simp
  from open_node_rdonly [OF nf(1) nd nf(2) mem] obtain st' where
    o: "open_node st f O_RDONLY = Inr (Suc (length (fds st)), st')"
    and n: "nodes st' = (nodes st)[f - 1 := Some (nf\<lparr>openfor := OPENFOR_READ, usage := usage nf + 1\<rparr>)]"
    and d: "fds st' = fds st @ [fd_zero\<lparr>filep := f, omode := O_RDONLY\<rparr>]"
    and q: "rd_fd_queue st' = rd_fd_queue st @ [Suc (length (fds st))]"
    and r: "root st' = root st" "heap_plan st' = []"
    by blast
  note rg = node_at_Some_range [OF nf(1)]
  have na: "node_at st' a = (if a = f
      then Some (nf\<lparr>openfor := OPENFOR_READ, usage := usage nf + 1\<rparr>) else node_at st a)" for a
    using rg by (simp add: node_at_upd [OF n])
  have fa: "fd_at st' k = (if k = Suc (length (fds st))
      then fd_zero\<lparr>filep := f, omode := O_RDONLY\<rparr> else fd_at st k)" for k
    by (simp add: fd_at_app [OF d])
  have "same_tree st st'"
    by (rule same_tree_update [OF nf(1) _ na]) (simp add: skel_def)
  with res r have "resolves st' (skip_slash p) f" by (simp add: resolves_same_tree)
  moreover have "ramdisk_open st p O_RDONLY = Inr (Suc (length (fds st)), st')"
    using open_found [OF res, of O_RDONLY] o by (simp add: const_defs)
  ultimately show ?thesis using na fa d q r by simp
qed

section \<open>Steps on a file that a path resolves to\<close>

lemma close_step:
  assumes fh: "filep (fd_at st h) = f" "f \<noteq> 0" "h \<noteq> 0"
    and nf: "node_at st f = Some nf" "0 < usage nf" and hq: "h \<in> set (rd_fd_queue st)"
  shows "\<exists>st'. ramdisk_close st h = Inr (0, st')
     \<and> (\<forall>a. node_at st' a = (if a = f
            then Some (if usage nf = 1 then nf\<lparr>usage := 0, openfor := OPENFOR_NOTHING\<rparr>
                       else nf\<lparr>usage := usage nf - 1\<rparr>)
            else node_at st a))
     \<and> (\<forall>k. fd_at st' k = (if k = h then (fd_at st h)\<lparr>filep := 0\<rparr> else fd_at st k))
     \<and> length (fds st') = length (fds st)
     \<and> rd_fd_queue st' = removeAll h (rd_fd_queue st)
     \<and> root st' = root st \<and> heap_plan st' = heap_plan st"
proof -
  have v: "\<not> ramdisk_fd_invalid st h" using fh by (simp add: ramdisk_fd_invalid_def)
  note rg = node_at_Some_range [OF nf(1)] fd_valid_range [OF v]
  from close_live [OF v nf(1) [folded fh(1)] nf(2) hq] obtain st' where
    c: "ramdisk_close st h = Inr (0, st')"
    and n: "nodes st' = (nodes st)[f - 1 :=
          Some (if usage nf = 1 then nf\<lparr>usage := 0, openfor := OPENFOR_NOTHING\<rparr>
                else nf\<lparr>usage := usage nf - 1\<rparr>)]"
    and d: "fds st' = (fds st)[h - 1 := (fd_at st h)\<lparr>filep := 0\<rparr>]"
    and q: "rd_fd_queue st' = removeAll h (rd_fd_queue st)"
    and r: "root st' = root st" "heap_plan st' = heap_plan st"
    unfolding fh(1) by blast
  have "node_at st' a = (if a = f
            then Some (if usage nf = 1 then nf\<lparr>usage := 0, openfor := OPENFOR_NOTHING\<rparr>
                       else nf\<lparr>usage := usage nf - 1\<rparr>)
            else node_at st a)" for a
    using rg by (simp add: node_at_upd [OF n])
  moreover have "fd_at st' k = (if k = h then (fd_at st h)\<lparr>filep := 0\<rparr> else fd_at st k)" for k
    using rg by (simp add: fd_at_upd [OF d])
  moreover have "length (fds st') = length (fds st)" by (simp add: d)
  ultimately show ?thesis using c q r by blast
qed

lemma open_write_on_read_step:
  assumes res: "resolves st (skip_slash p) f"
    and nf: "node_at st f = Some nf" "openfor nf = OPENFOR_READ" and mem: "heap_plan st = []"
  shows "\<exists>st'. ramdisk_open st p O_WRONLY = Inr (0, st')
     \<and> nodes st' = nodes st \<and> rd_fd_queue st' = rd_fd_queue st \<and> errno st' = errno st"
proof -
  from resolves_node [OF res] nf have nd: "\<not> isdir nf" by simp
  from open_node_write_on_read [OF nf(1) nd nf(2) mem] open_found [OF res, of O_WRONLY]
  show ?thesis by (simp add: const_defs)
qed

lemma reader_sharing_run:
  assumes inv: "rd_inv st" and mem: "heap_plan st = []"
    and res: "resolves st (skip_slash p) f"
    and nf: "node_at st f = Some nf" "usage nf = 0"
  shows "\<exists>h1 st1 h2 st2 st3 h3 st4 st5 st6.
      ramdisk_open st p O_RDONLY = Inr (h1, st1) \<and> h1 \<noteq> 0
    \<and> ramdisk_open st1 p O_RDONLY = Inr (h2, st2) \<and> h2 \<noteq> 0 \<and> h2 \<noteq> h1
    \<and> map_option usage (node_at st2 f) = Some 2 \<and> holders st2 f = 2
    \<and> map_option openfor (node_at st2 f) = Some OPENFOR_READ
    \<and> ramdisk_close st2 h1 = Inr (0, st3)
    \<and> map_option usage (node_at st3 f) = Some 1 \<and> holders st3 f = 1
    \<and> map_option openfor (node_at st3 f) = Some OPENFOR_READ
    \<and> ramdisk_open st3 p O_RDONLY = Inr (h3, st4) \<and> h3 \<noteq> 0
    \<and> ramdisk_open st3 p O_WRONLY = Inr (0, st5)
    \<and> ramdisk_close st3 h2 = Inr (0, st6)
    \<and> map_option usage (node_at st6 f) = Some 0 \<and> holders st6 f = 0
    \<and> map_option openfor (node_at st6 f) = Some OPENFOR_NOTHING
    \<and> rd_inv st1 \<and> rd_inv st2 \<and> rd_inv st3 \<and> rd_inv st4 \<and> rd_inv st5 \<and> rd_inv st6"
proof -
  from rd_inv_node [OF inv nf(1)] nf(2) have o0: "openfor nf = OPENFOR_NOTHING" by simp
  then have w0: "openfor nf \<noteq> OPENFOR_WRITE" by (simp add: const_defs)
  define h1 where "h1 = Suc (length (fds st))"
  define h2 where "h2 = Suc (Suc (length (fds st)))"
  define n1 where "n1 = nf\<lparr>openfor := OPENFOR_READ, usage := 1\<rparr>"
  define n2 where "n2 = nf\<lparr>openfor := OPENFOR_READ, usage := 2\<rparr>"
  define fd where "fd = fd_zero\<lparr>filep := f, omode := O_RDONLY\<rparr>"
  from resolves_node [OF res] have f0: "f \<noteq> 0" by (auto dest: node_at_Some_range)
  \<comment> \<open>first open\<close>
  from open_rdonly_step [OF res nf(1) w0 mem] obtain st1 where
    s1': "ramdisk_open st p O_RDONLY = Inr (Suc (length (fds st)), st1)"
    and na1': "\<forall>a. node_at st1 a = (if a = f
            then Some (nf\<lparr>openfor := OPENFOR_READ, usage := usage nf + 1\<rparr>) else node_at st a)"
    and fa1': "\<forall>k. fd_at st1 k = (if k = Suc (length (fds st))
            then fd_zero\<lparr>filep := f, omode := O_RDONLY\<rparr> else fd_at st k)"
    and l1: "length (fds st1) = Suc (length (fds st))"
    and q1': "rd_fd_queue st1 = rd_fd_queue st @ [Suc (length (fds st))]"
    and m1: "heap_plan st1 = []" and r1: "resolves st1 (skip_slash p) f"
    by blast
  have s1: "ramdisk_open st p O_RDONLY = Inr (h1, st1)" using s1' by (simp add: h1_def)
  have na1: "node_at st1 a = (if a = f then Some n1 else node_at st a)" for a
    using na1' nf(2) by (simp add: n1_def)
  have fa1: "fd_at st1 k = (if k = h1 then fd else fd_at st k)" for k
    using fa1' by (simp add: h1_def fd_def)
  have q1: "rd_fd_queue st1 = rd_fd_queue st @ [h1]" using q1' by (simp add: h1_def)
  \<comment> \<open>second open\<close>
  have nf1: "node_at st1 f = Some n1" "openfor n1 \<noteq> OPENFOR_WRITE"
    by (simp_all add: na1 n1_def const_defs)
  from open_rdonly_step [OF r1 nf1 m1] obtain st2 where
    s2': "ramdisk_open st1 p O_RDONLY = Inr (Suc (length (fds st1)), st2)"
    and na2': "\<forall>a. node_at st2 a = (if a = f
            then Some (n1\<lparr>openfor := OPENFOR_READ, usage := usage n1 + 1\<rparr>) else node_at st1 a)"
    and fa2': "\<forall>k. fd_at st2 k = (if k = Suc (length (fds st1))
            then fd_zero\<lparr>filep := f, omode := O_RDONLY\<rparr> else fd_at st1 k)"
    and l2': "length (fds st2) = Suc (length (fds st1))"
    and q2': "rd_fd_queue st2 = rd_fd_queue st1 @ [Suc (length (fds st1))]"
    and m2: "heap_plan st2 = []" and r2: "resolves st2 (skip_slash p) f"
    by blast
  have s2: "ramdisk_open st1 p O_RDONLY = Inr (h2, st2)" using s2' by (simp add: h2_def l1)
  have na2: "node_at st2 a = (if a = f then Some n2 else node_at st a)" for a
    using na2' by (simp add: n1_def n2_def na1)
  have fa2: "fd_at st2 k = (if k = h2 then fd else if k = h1 then fd else fd_at st k)" for k
    using fa2' by (simp add: h2_def l1 fd_def fa1)
  have l2: "length (fds st2) = Suc (Suc (length (fds st)))" using l2' by (simp add: l1)
  have q2: "rd_fd_queue st2 = rd_fd_queue st @ [h1, h2]"
    using q2' by (simp add: q1 h2_def l1)
  \<comment> \<open>the descriptors that were live before do not refer to the unopened node\<close>
  from rd_inv_node [OF inv nf(1)] nf(2) have hz: "holders st f = 0" by simp
  have hq: "h1 \<notin> set (rd_fd_queue st)" "h2 \<notin> set (rd_fd_queue st)"
    using rd_inv_queue [OF inv, of h1] rd_inv_queue [OF inv, of h2]
    by (auto simp: h1_def h2_def)
  have old: "filter (\<lambda>k. filep (fd_at st k) = f) (rd_fd_queue st) = []"
    using hz by (simp add: holders_def)
  have flt: "filter (\<lambda>k. filep (if k = h2 then fd else if k = h1 then fd else fd_at st k) = f)
      (rd_fd_queue st) = []"
    using old hq by (auto simp: filter_empty_conv)
  have flt3: "filter (\<lambda>k. filep (if k = h1 then fd\<lparr>filep := 0\<rparr>
        else if k = h2 then fd else fd_at st k) = f) (rd_fd_queue st) = []"
    using old hq by (auto simp: filter_empty_conv)
  have hne: "h1 \<noteq> h2" "h1 \<noteq> 0" "h2 \<noteq> 0" by (simp_all add: h1_def h2_def)
  have ho2: "holders st2 f = 2"
    using hne by (simp add: holders_def q2 fa2 flt fd_def)
  \<comment> \<open>close the first descriptor\<close>
  have c2: "filep (fd_at st2 h1) = f" "node_at st2 f = Some n2" "0 < usage n2"
    "h1 \<in> set (rd_fd_queue st2)"
    using hne by (simp_all add: fa2 na2 q2 n2_def fd_def)
  from close_step [OF c2(1) f0 hne(2) c2(2,3,4)] obtain st3 where
    s3: "ramdisk_close st2 h1 = Inr (0, st3)"
    and na3': "\<forall>a. node_at st3 a = (if a = f
            then Some (if usage n2 = 1 then n2\<lparr>usage := 0, openfor := OPENFOR_NOTHING\<rparr>
                       else n2\<lparr>usage := usage n2 - 1\<rparr>)
            else node_at st2 a)"
    and fa3': "\<forall>k. fd_at st3 k = (if k = h1 then (fd_at st2 h1)\<lparr>filep := 0\<rparr> else fd_at st2 k)"
    and l3': "length (fds st3) = length (fds st2)"
    and q3': "rd_fd_queue st3 = removeAll h1 (rd_fd_queue st2)"
    and rt3: "root st3 = root st2" and m3': "heap_plan st3 = heap_plan st2"
    by blast
  have na3: "node_at st3 a = (if a = f then Some n1 else node_at st a)" for a
    using na3' by (simp add: n1_def n2_def na2)
  have fa3: "fd_at st3 k = (if k = h1 then fd\<lparr>filep := 0\<rparr>
        else if k = h2 then fd else fd_at st k)" for k
    using fa3' hne by (simp add: fa2)
  have q3: "rd_fd_queue st3 = rd_fd_queue st @ [h2]"
    using q3' hq hne by (simp add: q2)
  have m3: "heap_plan st3 = []" using m3' m2 by simp
  have "same_tree st2 st3"
    by (rule same_tree_update [OF c2(2), of n1]) (simp_all add: skel_def n1_def n2_def na3 na2)
  with r2 rt3 have r3: "resolves st3 (skip_slash p) f" by (simp add: resolves_same_tree)
  have ho3: "holders st3 f = 1"
    using hne by (simp add: holders_def q3 fa3 flt3 fd_def)
  \<comment> \<open>a further reader is admitted, a writer is not\<close>
  have nf3: "node_at st3 f = Some n1" "openfor n1 = OPENFOR_READ" by (simp_all add: na3 n1_def)
  from open_rdonly_step [OF r3 nf3(1) nf1(2) m3] obtain st4 where
    s4: "ramdisk_open st3 p O_RDONLY = Inr (Suc (length (fds st3)), st4)" by blast
  from open_write_on_read_step [OF r3 nf3 m3] obtain st5 where
    s5: "ramdisk_open st3 p O_WRONLY = Inr (0, st5)" by blast
  \<comment> \<open>close the second descriptor\<close>
  have c3: "filep (fd_at st3 h2) = f" "0 < usage n1" "h2 \<in> set (rd_fd_queue st3)"
    using hne by (simp_all add: fa3 q3 n1_def fd_def)
  from close_step [OF c3(1) f0 hne(3) nf3(1) c3(2,3)] obtain st6 where
    s6: "ramdisk_close st3 h2 = Inr (0, st6)"
    and na6': "\<forall>a. node_at st6 a = (if a = f
            then Some (if usage n1 = 1 then n1\<lparr>usage := 0, openfor := OPENFOR_NOTHING\<rparr>
                       else n1\<lparr>usage := usage n1 - 1\<rparr>)
            else node_at st3 a)"
    and fa6': "\<forall>k. fd_at st6 k = (if k = h2 then (fd_at st3 h2)\<lparr>filep := 0\<rparr> else fd_at st3 k)"
    and q6': "rd_fd_queue st6 = removeAll h2 (rd_fd_queue st3)"
    by blast
  have na6: "node_at st6 a = (if a = f
        then Some (nf\<lparr>openfor := OPENFOR_NOTHING, usage := 0\<rparr>) else node_at st a)" for a
    using na6' by (simp add: n1_def na3)
  have fa6: "fd_at st6 k = (if k = h2 then fd\<lparr>filep := 0\<rparr>
        else if k = h1 then fd\<lparr>filep := 0\<rparr> else fd_at st k)" for k
    using fa6' hne by (simp add: fa3)
  have q6: "rd_fd_queue st6 = rd_fd_queue st"
    using q6' hq by (simp add: q3)
  have flt6: "filter (\<lambda>k. filep (if k = h2 then fd\<lparr>filep := 0\<rparr>
        else if k = h1 then fd\<lparr>filep := 0\<rparr> else fd_at st k) = f) (rd_fd_queue st) = []"
    using old hq by (auto simp: filter_empty_conv)
  have ho6: "holders st6 f = 0"
    by (simp add: holders_def q6 fa6 flt6)
  \<comment> \<open>the invariant along the way\<close>
  have i1: "rd_inv st1" using inv s1 by (rule open_inv)
  have i2: "rd_inv st2" using i1 s2 by (rule open_inv)
  have i3: "rd_inv st3" using i2 s3 by (rule close_inv)
  have i4: "rd_inv st4" using i3 s4 by (rule open_inv)
  have i5: "rd_inv st5" using i3 s5 by (rule open_inv)
  have i6: "rd_inv st6" using i3 s6 by (rule close_inv)
  have u2: "map_option usage (node_at st2 f) = Some 2"
    "map_option openfor (node_at st2 f) = Some OPENFOR_READ" by (simp_all add: na2 n2_def)
  have u3: "map_option usage (node_at st3 f) = Some 1"
    "map_option openfor (node_at st3 f) = Some OPENFOR_READ" by (simp_all add: na3 n1_def)
  have u6: "map_option usage (node_at st6 f) = Some 0"
    "map_option openfor (node_at st6 f) = Some OPENFOR_NOTHING" by (simp_all add: na6)
  have h3: "Suc (length (fds st3)) \<noteq> 0" by simp
  from s1 s2 s3 s4 s5 s6 hne u2 u3 u6 ho2 ho3 ho6 i1 i2 i3 i4 i5 i6 h3
  show ?thesis by blast
qed

lemma write_step:
  assumes fd: "fd_at st h = d" "filep d = f" "f \<noteq> 0" "h \<noteq> 0" "\<not> dir d" "ptr d = 0"
    and nd: "node_at st f = Some nf" "openfor nf = OPENFOR_WRITE" "data nf = Block blk"
      "length blk = datasize nf"
    and mem: "heap_plan st = []" and len: "length bytes + 4 * rd_blksize < 2 ^ 31"
  shows "\<exists>st' rest. ramdisk_write st h bytes = Inr (int (length bytes), st')
     \<and> (\<forall>a. node_at st' a = (if a = f
            then Some (nf\<lparr>datasize := length bytes + length rest, data := Block (bytes @ rest),
                          fsize := max (fsize nf) (length bytes)\<rparr>)
            else node_at st a))
     \<and> (\<forall>k. fd_at st' k = (if k = h then d\<lparr>ptr := length bytes\<rparr> else fd_at st k))
     \<and> rd_fd_queue st' = rd_fd_queue st \<and> length (fds st') = length (fds st)
     \<and> root st' = root st \<and> heap_plan st' = []"
proof -
  have v: "\<not> ramdisk_fd_invalid st h" using fd by (simp add: ramdisk_fd_invalid_def)
  note rg = node_at_Some_range [OF nd(1)] fd_valid_range [OF v]
  have w1: "wrap32 (length bytes) = length bytes"
    using len by (simp add: wrap32_def)
  have w2: "wrap32 (length bytes + rd_blksize * 4) = length bytes + 4096"
    using len by (simp add: wrap32_def rd_blksize_def)
  have s: "s32 (length bytes) = int (length bytes)"
    using len by (simp add: s32_small)
  define grow where "grow = (datasize nf < length bytes)"
  define blk1 where "blk1 = (if grow then blk @ replicate (length bytes + 4096 - datasize nf) 0
      else blk)"
  define nf' where "nf' = nf\<lparr>datasize := length bytes + length (drop (length bytes) blk1),
      data := Block (bytes @ drop (length bytes) blk1), fsize := max (fsize nf) (length bytes)\<rparr>"
  define st' where "st' = set_node f nf' (set_fd h (d\<lparr>ptr := length bytes\<rparr>) st)"
  have l1: "length bytes + length (drop (length bytes) blk1)
      = (if grow then length bytes + 4096 else datasize nf)"
    using nd(4) by (auto simp: blk1_def grow_def)
  have "ramdisk_write st h bytes = Inr (int (length bytes), st')"
    using v fd nd mem
    by (auto simp: ramdisk_write_def Let_def w1 w2 s split_beta store_bytes_def realloc_block_def
        malloc_ok_plain st'_def nf'_def l1 blk1_def grow_def max_def)
  moreover have "node_at st' a = (if a = f then Some nf' else node_at st a)" for a
    using rg by (simp add: st'_def node_at_set_node)
  moreover have "fd_at st' k = (if k = h then d\<lparr>ptr := length bytes\<rparr> else fd_at st k)" for k
    using rg by (simp add: st'_def fd_at_set_fd)
  moreover have "rd_fd_queue st' = rd_fd_queue st" "length (fds st') = length (fds st)"
    "root st' = root st" "heap_plan st' = []"
    using mem by (simp_all add: st'_def)
  ultimately show ?thesis unfolding nf'_def by blast
qed

lemma read_step:
  assumes fd: "fd_at st h = d" "filep d = f" "f \<noteq> 0" "h \<noteq> 0" "\<not> dir d" "ptr d = 0"
    and nd: "node_at st f = Some nf" "data nf = Block (bytes @ rest)" "fsize nf = length bytes"
    and n: "length bytes \<le> n" "n < 2 ^ 31"
  shows "returned (ramdisk_read st h n) = Inr (int (length bytes), bytes)"
proof -
  have v: "\<not> ramdisk_fd_invalid st h" using fd by (simp add: ramdisk_fd_invalid_def)
  have w: "wrap32 n = n" using n by (simp add: wrap32_def)
  have u: "u32 (int (length bytes)) = length bytes" using n by (simp add: u32_def)
  have s: "s32 (length bytes) = int (length bytes)" "s32 n = int n"
    using n by (simp_all add: s32_small)
  show ?thesis
    using v fd nd n
    by (auto simp: ramdisk_read_def Let_def w u s load_bytes_def returned_def)
qed

lemma total_step:
  assumes fd: "fd_at st h = d" "filep d = f" "f \<noteq> 0" "h \<noteq> 0" "\<not> dir d"
    and nd: "node_at st f = Some nf" "fsize nf = length bytes"
  shows "returned (ramdisk_total st h) = Inr (length bytes)"
  using assms by (simp add: ramdisk_total_def ramdisk_fd_invalid_def returned_def)

section \<open>A tree whose only directory is the root\<close>

lemma find_in_member: "find_in st cs nm = Inr c \<Longrightarrow> c \<noteq> 0 \<Longrightarrow> c \<in> set cs"
  by (induction cs) (auto split: option.splits if_splits)

lemma rd_flat_root:
  assumes "rd_flat st"
  shows "\<exists>r cs. node_at st (root st) = Some r \<and> isdir r \<and> data r = DirList cs
     \<and> (\<forall>c \<in> set cs. \<exists>n. node_at st c = Some n \<and> \<not> isdir n) \<and> root st \<noteq> 0"
proof -
  from assms obtain r where r: "node_at st (root st) = Some r" "isdir r"
    by (auto simp: rd_flat_def split: option.splits)
  with assms obtain cs where cs: "data r = DirList cs"
    by (auto simp: rd_flat_def split: rd_data.splits)
  have "\<exists>n. node_at st c = Some n \<and> \<not> isdir n" if "c \<in> set cs" for c
    using assms r cs that by (auto simp: rd_flat_def split: option.splits)
  moreover have "root st \<noteq> 0" using r(1) by (auto dest: node_at_Some_range)
  ultimately show ?thesis using r cs by blast
qed

lemma flat_find_file:
  assumes "rd_flat st" "ramdisk_find st (root st) nm = Inr c" "c \<noteq> 0"
  shows "\<exists>n. node_at st c = Some n \<and> \<not> isdir n"
proof -
  from rd_flat_root [OF assms(1)] obtain r cs where
    r: "node_at st (root st) = Some r" "isdir r" "data r = DirList cs"
    "\<forall>c \<in> set cs. \<exists>n. node_at st c = Some n \<and> \<not> isdir n" "root st \<noteq> 0"
    by blast
  from assms(2) r have "find_in st cs nm = Inr c"
    by (simp add: ramdisk_find_def dir_children_def)
  from find_in_member [OF this assms(3)] r(4) show ?thesis by blast
qed

lemma flat_no_dir:
  "find_path_from st parent g0 fn dr = Inr g \<Longrightarrow> rd_flat st \<Longrightarrow> parent = root st \<Longrightarrow>
     g0 = 0 \<Longrightarrow> dr \<Longrightarrow> g = 0"
proof (induction st parent g0 fn dr rule: find_path_from.induct)
  case (1 st parent g0 fn dr)
  note run = "1.prems"(1) [unfolded find_path_from.simps [of st parent g0 fn]]
  note pre = "1.prems"(2-5)
  show ?case
  proof (cases "strchr fn CHR ''/''")
    case None
    show ?thesis
    proof (cases "fn = []")
      case True
      with None run pre show ?thesis by simp
    next
      case False
      show ?thesis
      proof (cases "ramdisk_find st parent fn")
        case (Inl e)
        with None False run pre show ?thesis by simp
      next
        case (Inr f1)
        show ?thesis
        proof (cases "f1 = 0")
          case True
          with Inr None False run pre show ?thesis by simp
        next
          case f1: False
          from flat_find_file [OF "1.prems"(2) Inr [unfolded "1.prems"(3)] f1]
          obtain n where "node_at st f1 = Some n" "\<not> isdir n" by blast
          with Inr None False f1 run pre show ?thesis by simp
        qed
      qed
    qed
  next
    case (Some cur)
    show ?thesis
    proof (cases "cur = 0")
      case True
      with Some run pre "1.IH"(2) [of cur] show ?thesis by simp
    next
      case False
      show ?thesis
      proof (cases "ramdisk_find st parent (take cur fn)")
        case (Inl e)
        with Some False run pre show ?thesis by simp
      next
        case (Inr f1)
        show ?thesis
        proof (cases "f1 = 0")
          case True
          with Inr Some False run pre show ?thesis by simp
        next
          case f1: False
          from flat_find_file [OF "1.prems"(2) Inr [unfolded "1.prems"(3)] f1]
          obtain n where "node_at st f1 = Some n" "\<not> isdir n" by blast
          with Inr Some False f1 run pre show ?thesis by simp
        qed
      qed
    qed
  qed
qed

lemma strrchr_None: "strrchr s c = None \<longleftrightarrow> c \<notin> set s"
  by (simp add: strrchr_def)

lemma strchr_None: "strchr s c = None \<longleftrightarrow> c \<notin> set s"
  by (simp add: strchr_def)

lemma strncasecmp0_refl: "strncasecmp0 s s (length s)"
  by (simp add: strncasecmp0_def)

lemma create_flat:
  assumes flat: "rd_flat st" and mem: "heap_plan st = []"
    and cr: "ramdisk_create_file st (root st) fn False = Inr (f, sl)" and f: "f \<noteq> 0"
  shows "CHR ''/'' \<notin> set fn \<and> f = Suc (length (nodes st))
     \<and> (\<exists>r cs. node_at st (root st) = Some r \<and> data r = DirList cs
          \<and> (\<forall>a. node_at sl a = (if a = root st then Some (r\<lparr>data := DirList (f # cs)\<rparr>)
                else if a = f then Some (fresh_file fn) else node_at st a)))
     \<and> fds sl = fds st \<and> rd_fd_queue sl = rd_fd_queue st \<and> root sl = root st
     \<and> heap_plan sl = []"
proof -
  from rd_flat_root [OF flat] obtain r cs where
    r: "node_at st (root st) = Some r" "isdir r" "data r = DirList cs" "root st \<noteq> 0"
    by blast
  note rg = node_at_Some_range [OF r(1)]
  have ns: "CHR ''/'' \<notin> set fn"
  proof
    assume "CHR ''/'' \<in> set fn"
    then obtain p where p: "strrchr fn CHR ''/'' = Some p"
      using strrchr_None [of fn "CHR ''/''"] by auto
    have "g = 0" if "ramdisk_find_path st (root st) (take p fn) True = Inr g" for g
      using that flat by (auto simp: ramdisk_find_path_def dest: flat_no_dir)
    with cr f p mem show False
      by (auto simp: ramdisk_create_file_def ramdisk_get_parent_def malloc_ok_plain Let_def
          split: sum.splits)
  qed
  then have gp: "ramdisk_get_parent st (root st) fn = Inr (0, root st, fn, st)"
    by (simp add: ramdisk_get_parent_def strrchr_None [THEN iffD2])
  define s5 where "s5 = snd (new_node (fresh_file fn) st)"
  have nn: "new_node (fresh_file fn) st = (Suc (length (nodes st)), s5)"
    by (simp add: s5_def new_node_def)
  have n5: "node_at s5 a = (if a = Suc (length (nodes st)) then Some (fresh_file fn)
      else node_at st a)" for a
    by (auto simp: s5_def new_node_def node_at_def nth_append split: nat.splits)
  have o5: "fds s5 = fds st" "rd_fd_queue s5 = rd_fd_queue st" "root s5 = root st"
    "heap_plan s5 = []" "length (nodes s5) = Suc (length (nodes st))"
    using mem by (simp_all add: s5_def new_node_def)
  have r5: "node_at s5 (root st) = Some r" using rg r(1) by (simp add: n5)
  have li: "list_insert_head (root st) (Suc (length (nodes st))) s5
      = Inr (set_node (root st) (r\<lparr>data := DirList (Suc (length (nodes st)) # cs)\<rparr>) s5)"
    using r r5 by (simp add: list_insert_head_def dir_children_def)
  from cr gp mem nn li
  have e: "f = Suc (length (nodes st))"
    "sl = set_node (root st) (r\<lparr>data := DirList (Suc (length (nodes st)) # cs)\<rparr>) s5"
    by (auto simp: ramdisk_create_file_def malloc_ok_plain Let_def fresh_file_def)
  have "node_at sl a = (if a = root st then Some (r\<lparr>data := DirList (f # cs)\<rparr>)
                else if a = f then Some (fresh_file fn) else node_at st a)" for a
    using rg o5 by (simp add: e node_at_set_node n5)
  then show ?thesis using ns e(1) r o5 by (auto simp: e(2))
qed

lemma resolves_created:
  assumes flat: "rd_flat st" and mem: "heap_plan st = []"
    and cr: "ramdisk_create_file st (root st) fn False = Inr (f, sl)" and f: "f \<noteq> 0"
    and fn: "fn \<noteq> []"
  shows "resolves sl fn f \<and> node_at sl f = Some (fresh_file fn) \<and> heap_plan sl = []"
proof -
  from create_flat [OF flat mem cr f] obtain r cs where
    ns: "CHR ''/'' \<notin> set fn" and fe: "f = Suc (length (nodes st))"
    and r: "node_at st (root st) = Some r" "data r = DirList cs"
    and na: "\<forall>a. node_at sl a = (if a = root st then Some (r\<lparr>data := DirList (f # cs)\<rparr>)
                else if a = f then Some (fresh_file fn) else node_at st a)"
    and o: "root sl = root st" "heap_plan sl = []"
    by blast
  from rd_flat_root [OF flat] r have d: "isdir r" "root st \<noteq> 0" by auto
  from node_at_Some_range [OF r(1)] fe have ne: "f \<noteq> root st" by simp
  have nr: "node_at sl (root st) = Some (r\<lparr>data := DirList (f # cs)\<rparr>)"
    and nf: "node_at sl f = Some (fresh_file fn)"
    using na ne by simp_all
  have "ramdisk_find sl (root st) fn = Inr f"
    using nr nf d by (simp add: ramdisk_find_def dir_children_def fresh_file_def
        strncasecmp0_refl)
  then have "find_path_from sl (root st) 0 fn False = Inr f"
    using ns fn f nf
    by (simp add: find_path_from.simps [of sl "root st" 0 fn] strchr_None [THEN iffD2]
        fresh_file_def)
  then have "resolves sl fn f"
    using nr d fn f o by (simp add: resolves_def ramdisk_find_path_def)
  with nf o show ?thesis by simp
qed

lemma wtrunc_mode:
  "(O_WRONLY OR O_TRUNC) AND O_DIR = 0"
  "(O_WRONLY OR O_TRUNC) AND O_MODE_MASK = O_WRONLY"
  "(O_WRONLY OR O_TRUNC) AND O_TRUNC \<noteq> 0"
  "(O_WRONLY OR O_TRUNC) AND O_APPEND = 0"
  "O_WRONLY \<noteq> O_RDONLY"
  "O_WRONLY AND O_RDWR = 0" "O_WRONLY \<noteq> 0"
  by (simp_all add: const_defs)

lemma open_node_free:
  assumes inv: "rd_inv st" and nf: "node_at st f = Some nf"
    and op: "open_node st f (O_WRONLY OR O_TRUNC) = Inr (h, st1)" "h \<noteq> 0"
  shows "openfor nf = OPENFOR_NOTHING \<and> usage nf = 0"
proof -
  have w: "openfor nf \<noteq> OPENFOR_WRITE"
    using op nf by (auto simp: open_node_def split: if_splits)
  have "openfor nf \<noteq> OPENFOR_READ"
  proof
    assume "openfor nf = OPENFOR_READ"
    then have "open_access s nf (O_WRONLY OR O_TRUNC) = Inr None" for s
      by (simp add: open_access_def Let_def wtrunc_mode)
    with op nf show False
      by (auto simp: open_node_def Let_def split_beta split: if_splits)
  qed
  with w rd_inv_node [OF inv nf] show ?thesis by auto
qed

lemma open_wtrunc_inv:
  assumes inv: "rd_inv st" and flat: "rd_flat st" and mem: "heap_plan st = []"
    and op: "ramdisk_open st p (O_WRONLY OR O_TRUNC) = Inr (h, st1)" "h \<noteq> 0"
  shows "\<exists>sl f nf. resolves sl (skip_slash p) f \<and> node_at sl f = Some nf
     \<and> openfor nf = OPENFOR_NOTHING \<and> usage nf = 0 \<and> heap_plan sl = []
     \<and> open_node sl f (O_WRONLY OR O_TRUNC) = Inr (h, st1)"
proof -
  define fn where "fn = skip_slash p"
  define m where "m = O_WRONLY OR O_TRUNC"
  note md = wtrunc_mode [folded m_def]
  from rd_flat_root [OF flat] obtain r where
    r: "node_at st (root st) = Some r" "isdir r" "root st \<noteq> 0" by blast
  from op r(3) have lk: "(case open_lookup st fn m of Inl e \<Rightarrow> Inl e
      | Inr (f, s) \<Rightarrow> if f = 0 then Inr (0, s) else open_node s f m) = Inr (h, st1)"
    by (simp add: ramdisk_open_def Let_def md fn_def [symmetric] m_def [symmetric])
  then obtain f sl where l: "open_lookup st fn m = Inr (f, sl)" "f \<noteq> 0"
    and on: "open_node sl f m = Inr (h, st1)"
    using op(2) by (auto split: sum.splits if_splits)
  have fn: "fn \<noteq> []"
  proof
    assume "fn = []"
    with l have "f = root st" "sl = st" by (auto simp: open_lookup_def)
    with on r md op(2) show False by (simp add: open_node_def)
  qed
  from l fn obtain g where g: "ramdisk_find_path st (root st) fn False = Inr g"
    by (auto simp: open_lookup_def md split: sum.splits)
  show ?thesis
  proof (cases "g = 0")
    case False
    with l fn g have e: "g = f" "sl = st" by (auto simp: open_lookup_def md)
    have res: "resolves st fn f" using r fn g False e by (simp add: resolves_def)
    from resolves_node [OF res] obtain nf where nf: "node_at st f = Some nf" by blast
    from open_node_free [OF inv nf on [unfolded e(2) m_def] op(2)] res nf mem on e
    show ?thesis unfolding fn_def m_def by blast
  next
    case True
    with l fn g have cr: "ramdisk_create_file st (root st) fn False = Inr (f, sl)"
      by (simp add: open_lookup_def md)
    from resolves_created [OF flat mem cr l(2) fn] on
    show ?thesis unfolding fn_def m_def
      by (auto simp: fresh_file_def intro!: exI [of _ sl] exI [of _ f])
  qed
qed

text \<open>
  \<open>ramdisk_open\<close> and \<open>ramdisk_close\<close> keep \<open>rd_flat\<close>: a file that is created goes
  into the root, and opening or closing a node changes neither its name, nor its kind,
  nor the children of a directory.
\<close>

lemma rd_flat_same_tree:
  assumes t: "same_tree st st'" and r: "root st' = root st" and flat: "rd_flat st"
  shows "rd_flat st'"
proof -
  from rd_flat_root [OF flat] obtain rt cs where
    rt: "node_at st (root st) = Some rt" "isdir rt" "data rt = DirList cs"
    and ch: "\<forall>c \<in> set cs. \<exists>n. node_at st c = Some n \<and> \<not> isdir n"
    by blast
  from same_tree_node [OF t rt(1)] rt(2,3) obtain rt' where
    rt': "node_at st' (root st) = Some rt'" "isdir rt'" "data rt' = DirList cs" by auto
  have "case node_at st' c of None \<Rightarrow> False | Some n' \<Rightarrow> \<not> isdir n'" if "c \<in> set cs" for c
  proof -
    from ch that obtain n where "node_at st c = Some n" "\<not> isdir n" by blast
    with same_tree_node [OF t this(1)] show ?thesis by auto
  qed
  with rt' r show ?thesis by (simp add: rd_flat_def)
qed

lemma rd_flat_obs:
  assumes "\<And>a. node_at st' a = node_at st a" "root st' = root st" "rd_flat st"
  shows "rd_flat st'"
  using same_tree_obs [of st' st] assms by (blast intro: rd_flat_same_tree)

lemma create_file_flat:
  assumes flat: "rd_flat st"
    and cr: "ramdisk_create_file st (root st) fn False = Inr (f, sl)"
  shows "rd_flat sl \<and> root sl = root st"
proof (cases "ramdisk_get_parent st (root st) fn")
  case (Inl e)
  with cr show ?thesis by (simp add: ramdisk_create_file_def)
next
  case (Inr r)
  obtain rc pdir nm st1 where r: "r = (rc, pdir, nm, st1)" by (cases r) auto
  from get_parent_fields [OF Inr [unfolded r]]
  have gp: "nodes st1 = nodes st" "root st1 = root st" by simp_all
  have n1: "node_at st1 a = node_at st a" for a using gp(1) by (rule node_at_same)
  from rd_flat_root [OF flat] obtain rt cs where
    rt: "node_at st (root st) = Some rt" "isdir rt" "data rt = DirList cs"
    and ch: "\<forall>c \<in> set cs. \<exists>n. node_at st c = Some n \<and> \<not> isdir n"
    by blast
  note rg = node_at_Some_range [OF rt(1)]
  show ?thesis
  proof (cases "rc < 0 \<or> \<not> fst (malloc_ok st1) \<or> \<not> fst (malloc_ok (snd (malloc_ok st1)))
      \<or> \<not> fst (malloc_ok (snd (malloc_ok (snd (malloc_ok st1)))))")
    case True
    with cr Inr r have "nodes sl = nodes st \<and> root sl = root st"
      using gp by (auto simp: ramdisk_create_file_def split_beta Let_def split: if_splits)
    then show ?thesis using flat by (auto intro: rd_flat_obs node_at_same)
  next
    case False
    have pd: "pdir = root st"
    proof (cases "strrchr fn CHR ''/''")
      case None
      with Inr r show ?thesis by (auto simp: ramdisk_get_parent_def)
    next
      case (Some p)
      have "g = 0" if "ramdisk_find_path (snd (malloc_ok st)) (root st) (take p fn) True = Inr g"
        for g
      proof -
        have "rd_flat (snd (malloc_ok st))" using flat by (auto intro: rd_flat_obs)
        with that show ?thesis
          by (auto simp: ramdisk_find_path_def dest: flat_no_dir)
      qed
      with Inr r Some False show ?thesis
        by (auto simp: ramdisk_get_parent_def split_beta Let_def split: if_splits sum.splits)
    qed
    define st4 where "st4 = snd (malloc_ok (snd (malloc_ok (snd (malloc_ok st1)))))"
    define new where "new = \<lparr>name = nm, fsize = 0, isdir = False, openfor = OPENFOR_NOTHING,
        usage = 0, data = Block (replicate rd_blksize 0), datasize = rd_blksize\<rparr>"
    define st5 where "st5 = snd (new_node new st4)"
    have ins: "list_insert_head pdir (Suc (length (nodes st))) st5 = Inr sl"
      and f: "f = Suc (length (nodes st))"
      using cr Inr r False gp
      by (auto simp: ramdisk_create_file_def split_beta Let_def st4_def st5_def new_def
          split: sum.splits)
    have n5: "node_at st5 a = (if a = f then Some new else node_at st a)" for a
      by (simp add: st5_def st4_def gp n1 f)
    have o5: "root st5 = root st" "length (nodes st5) = Suc (length (nodes st))"
      by (simp_all add: st5_def st4_def gp)
    have fr: "f \<noteq> root st" using rg f by simp
    have r5: "node_at st5 (root st) = Some rt" using fr rt(1) by (simp add: n5)
    have "list_insert_head (root st) f st5
        = Inr (set_node (root st) (rt\<lparr>data := DirList (f # cs)\<rparr>) st5)"
      using r5 rt rg by (simp add: list_insert_head_def dir_children_def)
    with ins have sl: "sl = set_node (root st) (rt\<lparr>data := DirList (f # cs)\<rparr>) st5"
      by (simp add: pd f)
    have nl: "node_at sl a = (if a = root st then Some (rt\<lparr>data := DirList (f # cs)\<rparr>)
        else if a = f then Some new else node_at st a)" for a
      using rg o5 by (simp add: sl node_at_set_node n5)
    have rl: "root sl = root st" by (simp add: sl o5)
    have "case node_at sl c of None \<Rightarrow> False | Some n \<Rightarrow> \<not> isdir n"
      if "c \<in> set (f # cs)" for c
    proof (cases "c = f")
      case True
      with fr show ?thesis by (simp add: nl new_def)
    next
      case False
      with that ch obtain n where n: "node_at st c = Some n" "\<not> isdir n" by auto
      with rt have "c \<noteq> root st" by auto
      with False n show ?thesis by (simp add: nl)
    qed
    then show ?thesis using rt(2) by (simp add: rd_flat_def rl nl)
  qed
qed

lemma open_lookup_flat:
  assumes flat: "rd_flat st" and lk: "open_lookup st fn m = Inr (f, st1)"
  shows "rd_flat st1 \<and> root st1 = root st"
proof -
  from lk consider "nodes st1 = nodes st" "root st1 = root st"
    | "ramdisk_create_file st (root st) fn False = Inr (f, st1)"
    by (auto simp: open_lookup_def split: if_splits sum.splits)
  then show ?thesis
  proof cases
    case 1
    with flat show ?thesis by (auto intro: rd_flat_obs node_at_same)
  next
    case 2
    with flat show ?thesis by (rule create_file_flat)
  qed
qed

lemma open_access_skel:
  assumes "open_access st nf m = Inr (Some (nf1, p, st4))"
    "isdir nf \<longrightarrow> m AND O_MODE_MASK = O_RDONLY"
  shows "skel nf1 = skel nf \<and> root st4 = root st \<and> nodes st4 = nodes st"
  using assms by (auto simp: open_access_def Let_def split_beta skel_def split: if_splits)

lemma open_node_tree:
  assumes op: "open_node st f m = Inr (h, st')"
    and md: "m AND O_DIR \<noteq> 0 \<longrightarrow> m AND O_MODE_MASK = O_RDONLY"
  shows "same_tree st st' \<and> root st' = root st"
proof (cases "node_at st f")
  case None
  with op show ?thesis by (simp add: open_node_def)
next
  case (Some nf)
  note rg = node_at_Some_range [OF Some]
  show ?thesis
  proof (cases "(isdir nf \<and> m AND O_DIR = 0) \<or> openfor nf = OPENFOR_WRITE
      \<or> \<not> fst (malloc_ok st)")
    case True
    with op Some have "st' = set_errno EINVAL st \<or> st' = st
        \<or> st' = set_errno ENOMEM (snd (malloc_ok st))"
      by (auto simp: open_node_def split_beta split: if_splits)
    then have "nodes st' = nodes st \<and> root st' = root st" by auto
    then show ?thesis by (auto intro: same_tree_obs node_at_same)
  next
    case False
    then have c: "\<not> (isdir nf \<and> m AND O_DIR = 0)" "openfor nf \<noteq> OPENFOR_WRITE"
      "fst (malloc_ok st)" by simp_all
    define st2 where "st2 = snd (malloc_ok st)"
    define fd where "fd = fd_zero\<lparr>filep := f, dir := (m AND O_DIR \<noteq> 0), omode := m\<rparr>"
    define st3 where "st3 = snd (new_fd fd st2)"
    define h0 where "h0 = Suc (length (fds st))"
    note defs = st3_def st2_def fd_def
    have o3: "nodes st3 = nodes st" "root st3 = root st" by (simp_all add: defs)
    show ?thesis
    proof (cases "open_access st3 nf m")
      case (Inl e)
      have "open_node st f m = Inl e"
        by (simp add: open_node_def Some c split_beta Let_def Inl [unfolded defs])
      with op show ?thesis by simp
    next
      case (Inr r)
      show ?thesis
      proof (cases r)
        case None
        have "open_node st f m = Inr (0, st3)"
          by (simp add: open_node_def \<open>node_at st f = Some nf\<close> c split_beta Let_def
              Inr [unfolded None defs] defs)
        with op have "st' = st3" by simp
        with o3 show ?thesis by (auto intro: same_tree_obs node_at_same)
      next
        case S: (Some t)
        obtain nf1 p st4 where t: "t = (nf1, p, st4)" by (cases t) auto
        from c(1) md have "isdir nf \<longrightarrow> m AND O_MODE_MASK = O_RDONLY" by blast
        from open_access_skel [OF Inr [unfolded S t] this]
        have a: "skel nf1 = skel nf" "root st4 = root st" "nodes st4 = nodes st"
          by (simp_all add: o3)
        define q where "q = (if m AND O_DIR \<noteq> 0 then list_first (data nf1) else Inr p)"
        have eq: "open_node st f m = (case q of Inl e \<Rightarrow> Inl e
            | Inr p1 \<Rightarrow> Inr (h0, (set_node f (nf1\<lparr>usage := usage nf1 + 1\<rparr>)
                   (set_fd h0 (fd\<lparr>ptr := p1\<rparr>) st4))\<lparr>rd_fd_queue := rd_fd_queue st4 @ [h0]\<rparr>))"
          by (simp add: open_node_def \<open>node_at st f = Some nf\<close> c split_beta Let_def
              Inr [unfolded S t defs] defs h0_def q_def split: sum.splits)
        from op eq have e2: "(case q of Inl e \<Rightarrow> Inl e
            | Inr p1 \<Rightarrow> Inr (h0, (set_node f (nf1\<lparr>usage := usage nf1 + 1\<rparr>)
                   (set_fd h0 (fd\<lparr>ptr := p1\<rparr>) st4))\<lparr>rd_fd_queue := rd_fd_queue st4 @ [h0]\<rparr>))
            = Inr (h, st')" by simp
        then obtain p1 where q: "q = Inr p1" by (cases q) simp_all
        from e2 have st': "st' = (set_node f (nf1\<lparr>usage := usage nf1 + 1\<rparr>)
              (set_fd h0 (fd\<lparr>ptr := p1\<rparr>) st4))\<lparr>rd_fd_queue := rd_fd_queue st4 @ [h0]\<rparr>"
          unfolding q by auto
        have n4: "node_at st4 b = node_at st b" for b using a(3) by (rule node_at_same)
        have na: "node_at st' b = (if b = f then Some (nf1\<lparr>usage := usage nf1 + 1\<rparr>)
            else node_at st b)" for b
          using rg by (simp add: st' node_at_set_node n4 a(3))
        have "skel (nf1\<lparr>usage := usage nf1 + 1\<rparr>) = skel nf1" by (simp add: skel_def)
        with a(1) have "skel (nf1\<lparr>usage := usage nf1 + 1\<rparr>) = skel nf" by simp
        from Some this na have "same_tree st st'" by (rule same_tree_update)
        then show ?thesis by (simp add: st' a)
      qed
    qed
  qed
qed

lemma open_flat:
  assumes flat: "rd_flat st" and op: "ramdisk_open st p m = Inr (h, st')"
  shows "rd_flat st'"
proof -
  from op consider
      (early) "st' = set_errno EISDIR st"
    | (null) st1 where "open_lookup st (skip_slash p) m = Inr (0, st1)" "st' = st1"
    | (node) f st1 where "open_lookup st (skip_slash p) m = Inr (f, st1)"
        "open_node st1 f m = Inr (h, st')"
        "m AND O_DIR \<noteq> 0 \<longrightarrow> m AND O_MODE_MASK = O_RDONLY"
    by (auto simp: ramdisk_open_def Let_def split: if_splits sum.splits)
  then show ?thesis
  proof cases
    case early
    with flat show ?thesis by (auto intro: rd_flat_obs node_at_same)
  next
    case null
    with open_lookup_flat [OF flat null(1)] show ?thesis by simp
  next
    case node
    from open_lookup_flat [OF flat node(1)] open_node_tree [OF node(2,3)]
    show ?thesis by (auto intro: rd_flat_same_tree)
  qed
qed

lemma close_tree:
  assumes cl: "ramdisk_close st h = Inr (rc, st')"
  shows "same_tree st st' \<and> root st' = root st"
proof (cases "ramdisk_fd_invalid st h")
  case True
  with cl have "st' = set_errno EBADF st" by (simp add: ramdisk_close_def)
  then have "nodes st' = nodes st \<and> root st' = root st" by simp
  then show ?thesis by (auto intro: same_tree_obs node_at_same)
next
  case False
  define f where "f = filep (fd_at st h)"
  define st1 where "st1 = set_fd h ((fd_at st h)\<lparr>filep := 0\<rparr>) st"
  have n1: "node_at st1 a = node_at st a" for a
    by (rule node_at_same) (simp add: st1_def)
  from cl False obtain nf where nf: "node_at st f = Some nf"
    by (auto simp: ramdisk_close_def Let_def f_def st1_def [symmetric] n1 split: option.splits)
  note rg = node_at_Some_range [OF nf]
  define nf2 where "nf2 = (if usage nf - 1 = 0 then nf\<lparr>usage := usage nf - 1, openfor := OPENFOR_NOTHING\<rparr>
      else nf\<lparr>usage := usage nf - 1\<rparr>)"
  from cl False nf have st': "st' = (set_node f nf2 st1)\<lparr>rd_fd_queue :=
      removeAll h (rd_fd_queue (set_node f nf2 st1))\<rparr>"
    by (auto simp: ramdisk_close_def Let_def f_def [symmetric] st1_def [symmetric] n1 nf2_def
        split: if_splits)
  have na: "node_at st' a = (if a = f then Some nf2 else node_at st a)" for a
    using rg by (simp add: st' node_at_set_node n1 st1_def)
  have "skel nf2 = skel nf" by (simp add: skel_def nf2_def)
  from nf this na have "same_tree st st'" by (rule same_tree_update)
  then show ?thesis by (simp add: st' st1_def)
qed

lemma close_flat:
  assumes "rd_flat st" "ramdisk_close st h = Inr (rc, st')"
  shows "rd_flat st'"
  using close_tree [OF assms(2)] assms(1) by (auto intro: rd_flat_same_tree)

section \<open>Write, close, reopen and read\<close>

lemma roundtrip_core:
  assumes res: "resolves sl (skip_slash p) f"
    and nf: "node_at sl f = Some nf" "openfor nf = OPENFOR_NOTHING" "usage nf = 0"
    and mem: "heap_plan sl = []"
    and len: "length bytes + 4 * rd_blksize < 2 ^ 31" and n: "length bytes \<le> n" "n < 2 ^ 31"
  shows "\<exists>h st1 st2 st3 h2 st4.
      open_node sl f (O_WRONLY OR O_TRUNC) = Inr (h, st1)
    \<and> ramdisk_write st1 h bytes = Inr (int (length bytes), st2)
    \<and> ramdisk_close st2 h = Inr (0, st3)
    \<and> ramdisk_open st3 p O_RDONLY = Inr (h2, st4) \<and> h2 \<noteq> 0
    \<and> returned (ramdisk_read st4 h2 n) = Inr (int (length bytes), bytes)
    \<and> returned (ramdisk_total st4 h2) = Inr (length bytes)"
proof -
  from resolves_node [OF res] nf have nd: "\<not> isdir nf" and f0: "f \<noteq> 0"
    by (auto dest: node_at_Some_range)
  note rg = node_at_Some_range [OF nf(1)]
  define h where "h = Suc (length (fds sl))"
  define d where "d = fd_zero\<lparr>filep := f, omode := O_WRONLY OR O_TRUNC\<rparr>"
  define n1 where "n1 = nf\<lparr>openfor := OPENFOR_WRITE, datasize := rd_blksize,
      data := Block (replicate rd_blksize 0), fsize := 0, usage := usage nf + 1\<rparr>"
  \<comment> \<open>open for writing\<close>
  from open_node_wtrunc [OF nf(1) nd nf(2) mem] obtain st1 where
    o1: "open_node sl f (O_WRONLY OR O_TRUNC) = Inr (h, st1)"
    and ns1: "nodes st1 = (nodes sl)[f - 1 := Some n1]"
    and ds1: "fds st1 = fds sl @ [d]"
    and q1: "rd_fd_queue st1 = rd_fd_queue sl @ [h]"
    and r1: "root st1 = root sl" "heap_plan st1 = []"
    unfolding h_def d_def n1_def by blast
  have na1: "node_at st1 a = (if a = f then Some n1 else node_at sl a)" for a
    using rg by (simp add: node_at_upd [OF ns1])
  have fa1: "fd_at st1 k = (if k = h then d else fd_at sl k)" for k
    by (simp add: fd_at_app [OF ds1] h_def)
  \<comment> \<open>write\<close>
  have "fd_at st1 h = d" "filep d = f" "h \<noteq> 0" "\<not> dir d" "ptr d = 0"
    by (simp_all add: fa1 d_def fd_zero_def h_def)
  moreover have "node_at st1 f = Some n1" "openfor n1 = OPENFOR_WRITE"
    "data n1 = Block (replicate rd_blksize 0)" "length (replicate rd_blksize (0::byte)) = datasize n1"
    by (simp_all add: na1 n1_def)
  ultimately obtain st2 rest where
    w: "ramdisk_write st1 h bytes = Inr (int (length bytes), st2)"
    and na2': "\<forall>a. node_at st2 a = (if a = f
            then Some (n1\<lparr>datasize := length bytes + length rest, data := Block (bytes @ rest),
                          fsize := max (fsize n1) (length bytes)\<rparr>)
            else node_at st1 a)"
    and fa2': "\<forall>k. fd_at st2 k = (if k = h then d\<lparr>ptr := length bytes\<rparr> else fd_at st1 k)"
    and o2: "rd_fd_queue st2 = rd_fd_queue st1" "length (fds st2) = length (fds st1)"
      "root st2 = root st1" "heap_plan st2 = []"
    using write_step [OF _ _ f0 _ _ _ _ _ _ _ r1(2) len, of h d n1 "replicate rd_blksize 0"]
    by blast
  define n2 where "n2 = n1\<lparr>datasize := length bytes + length rest, data := Block (bytes @ rest),
      fsize := max (fsize n1) (length bytes)\<rparr>"
  have na2: "node_at st2 a = (if a = f then Some n2 else node_at sl a)" for a
    using na2' by (simp add: na1 n2_def)
  have fa2: "fd_at st2 h = d\<lparr>ptr := length bytes\<rparr>" using fa2' by simp
  \<comment> \<open>close\<close>
  have h0: "h \<noteq> 0" by (simp add: h_def)
  have "filep (fd_at st2 h) = f" "node_at st2 f = Some n2" "0 < usage n2"
    "h \<in> set (rd_fd_queue st2)"
    using nf(3) by (simp_all add: fa2 na2 d_def n2_def n1_def o2 q1)
  from close_step [OF this(1) f0 h0 this(2-4)] obtain st3 where
    c: "ramdisk_close st2 h = Inr (0, st3)"
    and na3': "\<forall>a. node_at st3 a = (if a = f
            then Some (if usage n2 = 1 then n2\<lparr>usage := 0, openfor := OPENFOR_NOTHING\<rparr>
                       else n2\<lparr>usage := usage n2 - 1\<rparr>)
            else node_at st2 a)"
    and o3: "root st3 = root st2" "heap_plan st3 = heap_plan st2"
    by blast
  define n3 where "n3 = n2\<lparr>usage := 0, openfor := OPENFOR_NOTHING\<rparr>"
  have u2: "usage n2 = 1" using nf(3) by (simp add: n2_def n1_def)
  have na3: "node_at st3 a = (if a = f then Some n3 else node_at sl a)" for a
    using na3' by (simp add: na2 n3_def u2)
  \<comment> \<open>open for reading\<close>
  have "same_tree sl st3"
    by (rule same_tree_update [OF nf(1) _ na3]) (simp add: skel_def n3_def n2_def n1_def nd)
  from resolves_same_tree [OF res this] o3 o2 r1
  have res3: "resolves st3 (skip_slash p) f" by simp
  have "node_at st3 f = Some n3" "openfor n3 \<noteq> OPENFOR_WRITE" "heap_plan st3 = []"
    by (simp_all add: na3 n3_def o3 o2 const_defs)
  from open_rdonly_step [OF res3 this] obtain st4 where
    o4: "ramdisk_open st3 p O_RDONLY = Inr (Suc (length (fds st3)), st4)"
    and na4': "\<forall>a. node_at st4 a = (if a = f
            then Some (n3\<lparr>openfor := OPENFOR_READ, usage := usage n3 + 1\<rparr>) else node_at st3 a)"
    and fa4': "\<forall>k. fd_at st4 k = (if k = Suc (length (fds st3))
            then fd_zero\<lparr>filep := f, omode := O_RDONLY\<rparr> else fd_at st3 k)"
    by blast
  define h2 where "h2 = Suc (length (fds st3))"
  define d4 where "d4 = fd_zero\<lparr>filep := f, omode := O_RDONLY\<rparr>"
  define n4 where "n4 = n3\<lparr>openfor := OPENFOR_READ, usage := usage n3 + 1\<rparr>"
  \<comment> \<open>read and total\<close>
  have fd4: "fd_at st4 h2 = d4" "filep d4 = f" "h2 \<noteq> 0" "\<not> dir d4" "ptr d4 = 0"
    using fa4' by (simp_all add: h2_def d4_def fd_zero_def)
  have nd4: "node_at st4 f = Some n4" "data n4 = Block (bytes @ rest)"
    "fsize n4 = length bytes"
    using na4' by (simp_all add: n4_def n3_def n2_def n1_def)
  have "returned (ramdisk_read st4 h2 n) = Inr (int (length bytes), bytes)"
    by (rule read_step [OF fd4(1,2) f0 fd4(3-5) nd4 n])
  moreover have "returned (ramdisk_total st4 h2) = Inr (length bytes)"
    by (rule total_step [OF fd4(1,2) f0 fd4(3,4) nd4(1,3)])
  ultimately show ?thesis using o1 w c o4 [folded h2_def] fd4(3) by blast
qed

section \<open>The results of write and seek\<close>

lemma write_result:
  assumes valid: "\<not> ramdisk_fd_invalid st h" "\<not> dir (fd_at st h)"
    and node: "node_at st (filep (fd_at st h)) = Some nf" "openfor nf = OPENFOR_WRITE"
    and blk: "data nf = Block blk" "length blk = datasize nf"
    and cur: "ptr (fd_at st h) \<le> datasize nf"
    and rng: "ptr (fd_at st h) + length buf + 4 * rd_blksize < 2 ^ 31"
  shows "let fd = fd_at st h; p = ptr fd; n = length buf; grow = (datasize nf < p + n);
             cap = (if grow then p + n + 4 * rd_blksize else datasize nf);
             blk1 = (if grow then blk @ replicate (cap - datasize nf) 0 else blk);
             st1 = (if grow then snd (malloc_ok st) else st)
         in if grow \<and> \<not> fst (malloc_ok st)
            then ramdisk_write st h buf = Inr (- 1, set_errno ENOSPC (snd (malloc_ok st)))
               \<and> nodes (set_errno ENOSPC (snd (malloc_ok st))) = nodes st
               \<and> fds (set_errno ENOSPC (snd (malloc_ok st))) = fds st
            else ramdisk_write st h buf =
                   Inr (int n, set_node (filep fd)
                     (nf\<lparr>datasize := cap,
                         data := Block (take p blk @ buf @ drop (p + n) blk1),
                         fsize := max (fsize nf) (p + n)\<rparr>)
                     (set_fd h (fd\<lparr>ptr := p + n\<rparr>) st1))
               \<and> length (take p blk @ buf @ drop (p + n) blk1) = cap"
proof -
  have w1: "wrap32 (ptr (fd_at st h) + length buf) = ptr (fd_at st h) + length buf"
    using rng by (simp add: wrap32_def)
  have w2: "wrap32 (ptr (fd_at st h) + length buf + rd_blksize * 4)
      = ptr (fd_at st h) + length buf + 4096"
    using rng by (simp add: wrap32_def rd_blksize_def)
  have s: "s32 (length buf) = int (length buf)"
    using rng by (simp add: s32_small)
  show ?thesis
    using valid node blk cur
    apply (simp add: ramdisk_write_def Let_def w1 w2 s split_beta store_bytes_def
        realloc_block_def)
    apply (auto simp: rd_blksize_def max_def)
    done
qed

lemma seek_result:
  assumes valid: "\<not> ramdisk_fd_invalid st h" "\<not> dir (fd_at st h)"
    and node: "node_at st (filep (fd_at st h)) = Some nf"
    and rng: "fsize nf < 2 ^ 31" "ptr (fd_at st h) < 2 ^ 31" "- (2 ^ 31) \<le> offset" "offset < 2 ^ 31"
    and wh: "whence = SEEK_SET \<or> whence = SEEK_CUR \<or> whence = SEEK_END"
  shows "let fd = fd_at st h;
             base = (if whence = SEEK_SET then 0
                     else if whence = SEEK_CUR then int (ptr fd) else int (fsize nf));
             pos = min (base + offset) (int (fsize nf))
         in if base + offset < 0
            then ramdisk_seek st h offset whence = Inr (- 1, set_errno EINVAL st)
            else ramdisk_seek st h offset whence = Inr (pos, set_fd h (fd\<lparr>ptr := nat pos\<rparr>) st)
               \<and> 0 \<le> pos \<and> pos \<le> int (fsize nf)"
proof -
  have neg: "offset < 0 \<Longrightarrow> u32 (- offset) = nat (- offset)"
    using rng by (simp add: u32_def)
  have a: "0 \<le> x \<Longrightarrow> x < 2 ^ 32 \<Longrightarrow> u32 x = nat x" for x
    by (simp add: u32_def)
  have s: "n < 2 ^ 31 \<Longrightarrow> s32 n = int n" for n
    by (simp add: s32_def)
  show ?thesis
    using valid node rng wh
    apply (simp add: ramdisk_seek_def seek_switch_def Let_def SEEK_SET_def SEEK_CUR_def SEEK_END_def)
    apply (elim disjE)
    apply (auto simp: neg a s min_def nat_add_distrib)
    done
qed

section \<open>Close\<close>

text \<open>
  C5. Closing the null handle, in every state: the code sets \<open>errno\<close> to \<open>EBADF\<close> but
  returns \<open>0\<close>, the value it returns for a successful close. Nodes, descriptors and
  the queue of live descriptors are left as they were.
\<close>

theorem close_invalid_returns_zero:
  "ramdisk_close st 0 = Inr (0, set_errno EBADF st)
   \<and> returned (ramdisk_close st 0) = Inr 0
   \<and> errno (state_of (ramdisk_close st 0)) = Some EBADF
   \<and> nodes (state_of (ramdisk_close st 0)) = nodes st
   \<and> fds (state_of (ramdisk_close st 0)) = fds st
   \<and> rd_fd_queue (state_of (ramdisk_close st 0)) = rd_fd_queue st"
proof -
  have "ramdisk_close st 0 = Inr (0, set_errno EBADF st)"
    by (simp add: ramdisk_close_def ramdisk_fd_invalid_def)
  then show ?thesis
    by (simp add: returned_def state_of_def set_errno_def)
qed

section \<open>Directory enumeration\<close>

text \<open>
  C2. \<open>ramdisk_readdir\<close> at the end of a directory. On the empty root the first call,
  and on a root with the one child \<open>a\<close> the second call (the first returns the entry of
  \<open>a\<close>), read \<open>LIST_NEXT\<close> and the name through the null cursor: the result is the
  fault \<open>NullDeref\<close>, not an end-of-directory answer.
\<close>

theorem readdir_at_end_faults:
  "returned (ramdisk_open rd_fresh ''/'' (O_RDONLY OR O_DIR)) = Inr 1
   \<and> and_then (ramdisk_open rd_fresh ''/'' (O_RDONLY OR O_DIR)) (\<lambda>h st. ramdisk_readdir st h)
       = Inl NullDeref
   \<and> returned (ramdisk_open rd_closed ''/'' (O_RDONLY OR O_DIR)) = Inr 2
   \<and> and_then (ramdisk_open rd_closed ''/'' (O_RDONLY OR O_DIR))
         (\<lambda>h st. returned (ramdisk_readdir st h))
       = Inr (Some \<lparr>d_size = 5, d_name = ''a'', d_time = 0, d_attr = 0\<rparr>)
   \<and> and_then (ramdisk_open rd_closed ''/'' (O_RDONLY OR O_DIR))
         (\<lambda>h st. and_then (ramdisk_readdir st h) (\<lambda>de st1. ramdisk_readdir st1 h))
       = Inl NullDeref"
  by (simp add: rd_fresh_eq rd_closed_eq open_defs heap_defs const_defs path_defs run_defs
      ramdisk_readdir_def ramdisk_fd_invalid_def list_next_def int_defs Let_def)

section \<open>Stat and fstat\<close>

text \<open>
  C3. The file \<open>/a\<close> of the history holds five bytes in a block of 1024:
  \<open>ramdisk_total\<close> reports 5, while \<open>ramdisk_stat\<close> and \<open>ramdisk_fstat\<close> store 1024
  (\<open>datasize\<close>, the capacity) in \<open>st_size\<close>.
\<close>

theorem stat_size_is_capacity:
  "returned (ramdisk_total rd_reading 2) = Inr 5
   \<and> stat_size (ramdisk_stat rd_reading ''/a'') = Inr (0, Some 1024)
   \<and> stat_size (ramdisk_fstat rd_reading 2) = Inr (0, Some 1024)"
  by (simp add: rd_reading_eq heap_defs const_defs path_defs run_defs stat_size_def
      ramdisk_total_def ramdisk_stat_def ramdisk_fstat_def ramdisk_fd_invalid_def int_defs)

section \<open>Open against a locked node\<close>

text \<open>
  C4. Opening \<open>/a\<close> while a writer holds it (for reading or for writing) returns \<open>NULL\<close>
  and leaves the whole state, \<open>errno\<close> included, as it was; opening it for writing
  while a reader holds it returns \<open>NULL\<close> and leaves \<open>errno\<close> as it was. Whatever
  \<open>errno\<close> held before (\<open>e\<close>) it holds afterwards: \<open>EBUSY\<close> is never stored.
\<close>

theorem open_busy_leaves_errno:
  "ramdisk_open (rd_writing\<lparr>errno := e\<rparr>) ''/a'' O_RDONLY = Inr (0, rd_writing\<lparr>errno := e\<rparr>)
   \<and> ramdisk_open (rd_writing\<lparr>errno := e\<rparr>) ''/a'' O_WRONLY = Inr (0, rd_writing\<lparr>errno := e\<rparr>)
   \<and> returned (ramdisk_open (rd_reading\<lparr>errno := e\<rparr>) ''/a'' O_WRONLY) = Inr 0
   \<and> errno (state_of (ramdisk_open (rd_reading\<lparr>errno := e\<rparr>) ''/a'' O_WRONLY)) = e"
  by (simp add: rd_reading_eq rd_writing_eq open_defs heap_defs const_defs path_defs run_defs)

section \<open>Detach\<close>

text \<open>
  C6. Detaching \<open>/a\<close> while the reader of the history (handle 2) still holds it: the
  inner \<open>ramdisk_unlink\<close> fails with \<open>EBUSY\<close> (on its own it returns \<open>-1\<close>), yet
  \<open>fs_ramdisk_detach\<close> returns \<open>0\<close> and hands out the block; the node stays in the
  tree, emptied, with the reader still counted.
\<close>

theorem detach_busy_returns_zero:
  "returned (fs_ramdisk_detach rd_reading ''/a'')
     = Inr (0, Some (Block ([1, 2, 3, 4, 5] @ replicate 1019 0), 5))
   \<and> errno (state_of (fs_ramdisk_detach rd_reading ''/a'')) = Some EBUSY
   \<and> node_at (state_of (fs_ramdisk_detach rd_reading ''/a'')) 2
     = Some \<lparr>name = ''a'', fsize = 0, isdir = False, openfor = OPENFOR_READ, usage = 1,
         data = NullData, datasize = 0\<rparr>
   \<and> returned (ramdisk_unlink rd_reading ''/a'') = Inr (- 1)
   \<and> errno (state_of (ramdisk_unlink rd_reading ''/a'')) = Some EBUSY"
  by (simp add: rd_reading_eq fs_ramdisk_detach_def ramdisk_unlink_def ramdisk_close_def
      ramdisk_fd_invalid_def open_defs heap_defs const_defs path_defs run_defs)

section \<open>Write\<close>

text \<open>
  C7. A write of \<open>buf\<close> through a valid descriptor \<open>h\<close> of a file whose node is locked
  for writing, with the cursor \<open>p\<close> inside the block and no 32-bit wrap-around. When
  \<open>p + length buf\<close> exceeds the capacity, the block is reallocated to exactly
  \<open>p + length buf + 4 * rd_blksize\<close> bytes. When that allocation fails, the call
  returns \<open>-1\<close> with \<open>errno = ENOSPC\<close> and neither the nodes (content, capacity,
  size) nor the descriptors (cursor) change. Otherwise the call returns
  \<open>length buf\<close>; the block keeps its bytes before \<open>p\<close>, holds \<open>buf\<close> at \<open>p\<close>, and
  fills the capacity; the cursor is \<open>p + length buf\<close>, and the size is the larger of
  the old size and the new cursor. With \<open>st'\<close> the state after the call, the cursor of
  \<open>h\<close>, the node of the file and \<open>errno\<close> are read in \<open>st'\<close>.
\<close>

theorem write_grows_or_fails:
  assumes valid: "\<not> ramdisk_fd_invalid st h" "\<not> dir (fd_at st h)"
    and node: "node_at st (filep (fd_at st h)) = Some nf" "openfor nf = OPENFOR_WRITE"
    and blk: "data nf = Block blk" "length blk = datasize nf"
    and cur: "ptr (fd_at st h) \<le> datasize nf"
    and rng: "ptr (fd_at st h) + length buf + 4 * rd_blksize < 2 ^ 31"
  shows "let fd = fd_at st h; p = ptr fd; n = length buf; grow = (datasize nf < p + n);
             cap = (if grow then p + n + 4 * rd_blksize else datasize nf);
             blk1 = (if grow then blk @ replicate (cap - datasize nf) 0 else blk);
             st1 = (if grow then snd (malloc_ok st) else st);
             st' = state_of (ramdisk_write st h buf)
         in if grow \<and> \<not> fst (malloc_ok st)
            then ramdisk_write st h buf = Inr (- 1, set_errno ENOSPC (snd (malloc_ok st)))
               \<and> nodes (set_errno ENOSPC (snd (malloc_ok st))) = nodes st
               \<and> fds (set_errno ENOSPC (snd (malloc_ok st))) = fds st
               \<and> returned (ramdisk_write st h buf) = Inr (- 1)
               \<and> errno st' = Some ENOSPC \<and> nodes st' = nodes st \<and> fds st' = fds st
               \<and> ptr (fd_at st' h) = p \<and> node_at st' (filep fd) = Some nf
            else ramdisk_write st h buf =
                   Inr (int n, set_node (filep fd)
                     (nf\<lparr>datasize := cap,
                         data := Block (take p blk @ buf @ drop (p + n) blk1),
                         fsize := max (fsize nf) (p + n)\<rparr>)
                     (set_fd h (fd\<lparr>ptr := p + n\<rparr>) st1))
               \<and> length (take p blk @ buf @ drop (p + n) blk1) = cap
               \<and> returned (ramdisk_write st h buf) = Inr (int n)
               \<and> ptr (fd_at st' h) = p + n \<and> filep (fd_at st' h) = filep fd
               \<and> node_at st' (filep fd) =
                   Some (nf\<lparr>datasize := cap,
                           data := Block (take p blk @ buf @ drop (p + n) blk1),
                           fsize := max (fsize nf) (p + n)\<rparr>)"
proof -
  note rg = node_at_Some_range [OF node(1)] fd_valid_range [OF valid(1)]
  define grow where "grow = (datasize nf < ptr (fd_at st h) + length buf)"
  note w = write_result [OF assms, unfolded Let_def, folded grow_def]
  have fa: "fd_at (set_errno e (snd (malloc_ok st))) k = fd_at st k" for e k by simp
  have na: "node_at (set_errno e (snd (malloc_ok st))) a = node_at st a" for e a
    by (simp add: node_at_set_errno)
  show ?thesis
  proof (cases "grow \<and> \<not> fst (malloc_ok st)")
    case True
    with w have e: "ramdisk_write st h buf = Inr (- 1, set_errno ENOSPC (snd (malloc_ok st)))"
      by simp
    have "errno (set_errno ENOSPC (snd (malloc_ok st))) = Some ENOSPC"
      by (simp add: set_errno_def)
    with True e node(1) show ?thesis
      unfolding Let_def grow_def [symmetric]
      by (simp add: state_of_def returned_def fa na)
  next
    case False
    define cap where "cap = (if grow then ptr (fd_at st h) + length buf + 4 * rd_blksize
        else datasize nf)"
    define blk1 where "blk1 = (if grow then blk @ replicate (cap - datasize nf) 0 else blk)"
    define st1 where "st1 = (if grow then snd (malloc_ok st) else st)"
    define nf' where "nf' = nf\<lparr>datasize := cap,
        data := Block (take (ptr (fd_at st h)) blk @ buf
                 @ drop (ptr (fd_at st h) + length buf) blk1),
        fsize := max (fsize nf) (ptr (fd_at st h) + length buf)\<rparr>"
    define st' where "st' = set_node (filep (fd_at st h)) nf'
        (set_fd h ((fd_at st h)\<lparr>ptr := ptr (fd_at st h) + length buf\<rparr>) st1)"
    from w False have e: "ramdisk_write st h buf = Inr (int (length buf), st')"
      and l: "length (take (ptr (fd_at st h)) blk @ buf
                 @ drop (ptr (fd_at st h) + length buf) blk1) = cap"
      unfolding st'_def nf'_def st1_def blk1_def cap_def by simp_all
    have s1: "fds st1 = fds st" "nodes st1 = nodes st" by (simp_all add: st1_def)
    have f': "fd_at st' h = (fd_at st h)\<lparr>ptr := ptr (fd_at st h) + length buf\<rparr>"
      using rg by (simp add: st'_def fd_at_set_fd s1)
    have n': "node_at st' (filep (fd_at st h)) = Some nf'"
      using rg by (simp add: st'_def node_at_set_node s1)
    from False e l f' n' show ?thesis
      unfolding Let_def grow_def [symmetric] cap_def [symmetric] blk1_def [symmetric]
        st1_def [symmetric] e
      by (simp add: state_of_def returned_def nf'_def st'_def)
  qed
qed

theorem write_grows_or_fails_witness:
  "\<not> ramdisk_fd_invalid rd_writing 1 \<and> \<not> dir (fd_at rd_writing 1)
   \<and> node_at rd_writing (filep (fd_at rd_writing 1))
       = Some \<lparr>name = ''a'', fsize = 0, isdir = False, openfor = 2, usage = 1,
             data = Block (replicate 1024 0), datasize = 1024\<rparr>
   \<and> returned (ramdisk_write rd_writing 1 (replicate 2000 7)) = Inr 2000
   \<and> map_option datasize (node_at (state_of (ramdisk_write rd_writing 1 (replicate 2000 7))) 2)
       = Some (2000 + 4 * 1024)
   \<and> map_option fsize (node_at (state_of (ramdisk_write rd_writing 1 (replicate 2000 7))) 2)
       = Some 2000
   \<and> ptr (fd_at (state_of (ramdisk_write rd_writing 1 (replicate 2000 7))) 1) = 2000
   \<and> map_option data (node_at (state_of (ramdisk_write rd_writing 1 (replicate 2000 7))) 2)
       = Some (Block (replicate 2000 7 @ replicate 4096 0))
   \<and> ramdisk_write (rd_writing\<lparr>heap_plan := [False]\<rparr>) 1 (replicate 2000 7)
       = Inr (- 1, rd_writing\<lparr>errno := Some ENOSPC\<rparr>)
   \<and> errno (state_of (ramdisk_write (rd_writing\<lparr>heap_plan := [False]\<rparr>) 1
         (replicate 2000 7))) = Some ENOSPC
   \<and> ptr (fd_at (state_of (ramdisk_write (rd_writing\<lparr>heap_plan := [False]\<rparr>) 1
         (replicate 2000 7))) 1) = 0
   \<and> map_option data (node_at (state_of (ramdisk_write (rd_writing\<lparr>heap_plan := [False]\<rparr>) 1
         (replicate 2000 7))) 2) = Some (Block (replicate 1024 0))"
proof -
  let ?nf = "\<lparr>name = ''a'', fsize = 0, isdir = False, openfor = 2, usage = 1,
             data = Block (replicate 1024 0), datasize = 1024\<rparr>"
  let ?st = "rd_writing\<lparr>heap_plan := [False]\<rparr>"
  have v: "\<not> ramdisk_fd_invalid rd_writing 1" "\<not> dir (fd_at rd_writing 1)"
    by (simp_all add: rd_writing_eq ramdisk_fd_invalid_def fd_at_def)
  have n: "node_at rd_writing (filep (fd_at rd_writing 1)) = Some ?nf"
    by (simp add: rd_writing_eq fd_at_def node_at_def)
  have p: "ptr (fd_at rd_writing 1) = 0"
    by (simp add: rd_writing_eq fd_at_def)
  have v': "\<not> ramdisk_fd_invalid ?st 1" "\<not> dir (fd_at ?st 1)"
    "node_at ?st (filep (fd_at ?st 1)) = Some ?nf" "ptr (fd_at ?st 1) = 0"
    using v n p by (simp_all add: ramdisk_fd_invalid_def)
  have a: "ramdisk_write rd_writing 1 (replicate 2000 7) =
      Inr (2000, set_node 2 (?nf\<lparr>datasize := 6096,
           data := Block (replicate 2000 7 @ replicate 4096 0), fsize := 2000\<rparr>)
         (set_fd 1 ((fd_at rd_writing 1)\<lparr>ptr := 2000\<rparr>) rd_writing))"
    using write_grows_or_fails [OF v n, of "replicate 1024 0" "replicate 2000 7"] p
    by (simp add: const_defs malloc_ok_def rd_writing_eq fd_at_def Let_def)
  have b: "ramdisk_write ?st 1 (replicate 2000 7) = Inr (- 1, rd_writing\<lparr>errno := Some ENOSPC\<rparr>)"
    using write_grows_or_fails [OF v'(1,2,3), of "replicate 1024 0" "replicate 2000 7"] v'(4)
    by (simp add: const_defs malloc_ok_def set_errno_def rd_writing_eq Let_def)
  have c: "returned (ramdisk_write rd_writing 1 (replicate 2000 7)) = Inr 2000"
    unfolding a by (simp add: returned_def)
  have d: "map_option datasize
      (node_at (state_of (ramdisk_write rd_writing 1 (replicate 2000 7))) 2) = Some (2000 + 4 * 1024)"
    unfolding a by (simp add: state_of_def node_at_set_node rd_writing_eq)
  have e: "map_option fsize
      (node_at (state_of (ramdisk_write rd_writing 1 (replicate 2000 7))) 2) = Some 2000"
    unfolding a by (simp add: state_of_def node_at_set_node rd_writing_eq)
  have g: "ptr (fd_at (state_of (ramdisk_write rd_writing 1 (replicate 2000 7))) 1) = 2000"
    unfolding a by (simp add: state_of_def fd_at_set_fd rd_writing_eq)
  have i: "map_option data (node_at (state_of (ramdisk_write rd_writing 1 (replicate 2000 7))) 2)
       = Some (Block (replicate 2000 7 @ replicate 4096 0))"
    unfolding a by (simp add: state_of_def node_at_set_node rd_writing_eq)
  have j: "errno (state_of (ramdisk_write ?st 1 (replicate 2000 7))) = Some ENOSPC"
    "ptr (fd_at (state_of (ramdisk_write ?st 1 (replicate 2000 7))) 1) = 0"
    "map_option data (node_at (state_of (ramdisk_write ?st 1 (replicate 2000 7))) 2)
       = Some (Block (replicate 1024 0))"
    unfolding b by (simp_all add: state_of_def rd_writing_eq fd_at_def node_at_def)
  from v n c d e g i b j show ?thesis by blast
qed

section \<open>Seek\<close>

text \<open>
  C8. A seek through a valid file descriptor with one of the three \<open>whence\<close> values,
  sizes and offsets in the 32-bit signed range. With \<open>base\<close> the origin (0, the
  cursor, or the size), the call fails (\<open>-1\<close>, \<open>errno = EINVAL\<close>, state otherwise
  unchanged) exactly when \<open>base + offset\<close> is negative; otherwise it returns and
  stores \<open>min (base + offset) size\<close>, which lies between 0 and the size. With \<open>st'\<close>
  the state after the call: on failure \<open>errno\<close> is \<open>EINVAL\<close> in \<open>st'\<close> and the cursor of
  \<open>h\<close> is the old one; otherwise the cursor of \<open>h\<close> in \<open>st'\<close> is the returned position
  and \<open>errno\<close> is the old one. The witness has the three cases of the spec: set with
  \<open>-1\<close> fails, end with \<open>0\<close> gives the size, a position past the end gives the size.
\<close>

theorem seek_negative_or_clamped:
  assumes valid: "\<not> ramdisk_fd_invalid st h" "\<not> dir (fd_at st h)"
    and node: "node_at st (filep (fd_at st h)) = Some nf"
    and rng: "fsize nf < 2 ^ 31" "ptr (fd_at st h) < 2 ^ 31" "- (2 ^ 31) \<le> offset" "offset < 2 ^ 31"
    and wh: "whence = SEEK_SET \<or> whence = SEEK_CUR \<or> whence = SEEK_END"
  shows "let fd = fd_at st h;
             base = (if whence = SEEK_SET then 0
                     else if whence = SEEK_CUR then int (ptr fd) else int (fsize nf));
             pos = min (base + offset) (int (fsize nf));
             st' = state_of (ramdisk_seek st h offset whence)
         in if base + offset < 0
            then ramdisk_seek st h offset whence = Inr (- 1, set_errno EINVAL st)
               \<and> returned (ramdisk_seek st h offset whence) = Inr (- 1)
               \<and> errno st' = Some EINVAL \<and> ptr (fd_at st' h) = ptr fd
               \<and> nodes st' = nodes st \<and> fds st' = fds st
            else ramdisk_seek st h offset whence = Inr (pos, set_fd h (fd\<lparr>ptr := nat pos\<rparr>) st)
               \<and> 0 \<le> pos \<and> pos \<le> int (fsize nf)
               \<and> returned (ramdisk_seek st h offset whence) = Inr pos
               \<and> int (ptr (fd_at st' h)) = pos \<and> filep (fd_at st' h) = filep fd
               \<and> errno st' = errno st \<and> nodes st' = nodes st"
proof -
  note rg = fd_valid_range [OF valid(1)]
  define base where "base = (if whence = SEEK_SET then 0
      else if whence = SEEK_CUR then int (ptr (fd_at st h)) else int (fsize nf))"
  define pos where "pos = min (base + offset) (int (fsize nf))"
  note r = seek_result [OF assms, unfolded Let_def, folded base_def, folded pos_def]
  show ?thesis
  proof (cases "base + offset < 0")
    case True
    with r have e: "ramdisk_seek st h offset whence = Inr (- 1, set_errno EINVAL st)" by simp
    have "errno (set_errno EINVAL st) = Some EINVAL" by (simp add: set_errno_def)
    with True e show ?thesis
      unfolding Let_def base_def [symmetric] pos_def [symmetric]
      by (simp add: state_of_def returned_def)
  next
    case False
    with r have e: "ramdisk_seek st h offset whence
        = Inr (pos, set_fd h ((fd_at st h)\<lparr>ptr := nat pos\<rparr>) st)"
      and b: "0 \<le> pos" "pos \<le> int (fsize nf)" by simp_all
    have f': "fd_at (set_fd h ((fd_at st h)\<lparr>ptr := nat pos\<rparr>) st) h
        = (fd_at st h)\<lparr>ptr := nat pos\<rparr>"
      using rg by (simp add: fd_at_set_fd)
    from False e b f' show ?thesis
      unfolding Let_def base_def [symmetric] pos_def [symmetric]
      by (simp add: state_of_def returned_def)
  qed
qed

theorem seek_negative_or_clamped_witness:
  "\<not> ramdisk_fd_invalid rd_reading 2 \<and> \<not> dir (fd_at rd_reading 2)
   \<and> map_option fsize (node_at rd_reading (filep (fd_at rd_reading 2))) = Some 5
   \<and> ptr (fd_at rd_reading 2) = 0
   \<and> ramdisk_seek rd_reading 2 (- 1) SEEK_SET = Inr (- 1, set_errno EINVAL rd_reading)
   \<and> ramdisk_seek rd_reading 2 (- 1) SEEK_CUR = Inr (- 1, set_errno EINVAL rd_reading)
   \<and> ramdisk_seek rd_reading 2 (- 6) SEEK_END = Inr (- 1, set_errno EINVAL rd_reading)
   \<and> returned (ramdisk_seek rd_reading 2 0 SEEK_END) = Inr 5
   \<and> returned (ramdisk_seek rd_reading 2 100 SEEK_SET) = Inr 5
   \<and> returned (ramdisk_seek rd_reading 2 (- 2) SEEK_END) = Inr 3
   \<and> errno (state_of (ramdisk_seek rd_reading 2 (- 1) SEEK_SET)) = Some EINVAL
   \<and> ptr (fd_at (state_of (ramdisk_seek rd_reading 2 (- 1) SEEK_SET)) 2) = 0
   \<and> ptr (fd_at (state_of (ramdisk_seek rd_reading 2 0 SEEK_END)) 2) = 5
   \<and> ptr (fd_at (state_of (ramdisk_seek rd_reading 2 100 SEEK_SET)) 2) = 5
   \<and> ptr (fd_at (state_of (ramdisk_seek rd_reading 2 (- 2) SEEK_END)) 2) = 3"
proof -
  let ?nf = "\<lparr>name = ''a'', fsize = 5, isdir = False, openfor = 1, usage = 1,
      data = Block ([1, 2, 3, 4, 5] @ replicate 1019 0), datasize = 1024\<rparr>"
  have v: "\<not> ramdisk_fd_invalid rd_reading 2" "\<not> dir (fd_at rd_reading 2)"
    by (simp_all add: rd_reading_eq ramdisk_fd_invalid_def fd_at_def)
  have n: "node_at rd_reading (filep (fd_at rd_reading 2)) = Some ?nf"
    by (simp add: rd_reading_eq fd_at_def node_at_def)
  have p: "ptr (fd_at rd_reading 2) = 0"
    by (simp add: rd_reading_eq fd_at_def)
  note s = seek_negative_or_clamped [OF v n]
  have a: "ramdisk_seek rd_reading 2 (- 1) SEEK_SET = Inr (- 1, set_errno EINVAL rd_reading)"
    using s [of "- 1" SEEK_SET] p by (simp add: Let_def)
  have b: "ramdisk_seek rd_reading 2 (- 1) SEEK_CUR = Inr (- 1, set_errno EINVAL rd_reading)"
    using s [of "- 1" SEEK_CUR] p by (simp add: Let_def SEEK_SET_def SEEK_CUR_def)
  have c: "ramdisk_seek rd_reading 2 (- 6) SEEK_END = Inr (- 1, set_errno EINVAL rd_reading)"
    using s [of "- 6" SEEK_END] p by (simp add: Let_def SEEK_SET_def SEEK_CUR_def SEEK_END_def)
  have d: "returned (ramdisk_seek rd_reading 2 0 SEEK_END) = Inr 5"
    using s [of 0 SEEK_END] p
    by (simp add: Let_def SEEK_SET_def SEEK_CUR_def SEEK_END_def returned_def)
  have e: "returned (ramdisk_seek rd_reading 2 100 SEEK_SET) = Inr 5"
    using s [of 100 SEEK_SET] p by (simp add: Let_def returned_def)
  have f: "returned (ramdisk_seek rd_reading 2 (- 2) SEEK_END) = Inr 3"
    using s [of "- 2" SEEK_END] p
    by (simp add: Let_def SEEK_SET_def SEEK_CUR_def SEEK_END_def returned_def)
  have n': "map_option fsize (node_at rd_reading (filep (fd_at rd_reading 2))) = Some 5"
    by (simp add: n)
  have g: "errno (state_of (ramdisk_seek rd_reading 2 (- 1) SEEK_SET)) = Some EINVAL"
    "ptr (fd_at (state_of (ramdisk_seek rd_reading 2 (- 1) SEEK_SET)) 2) = 0"
    using s [of "- 1" SEEK_SET] p by (auto simp: Let_def)
  have i: "ptr (fd_at (state_of (ramdisk_seek rd_reading 2 0 SEEK_END)) 2) = 5"
    using s [of 0 SEEK_END] p
    by (auto simp: Let_def SEEK_SET_def SEEK_CUR_def SEEK_END_def)
  have j: "ptr (fd_at (state_of (ramdisk_seek rd_reading 2 100 SEEK_SET)) 2) = 5"
    using s [of 100 SEEK_SET] p by (auto simp: Let_def)
  have k: "ptr (fd_at (state_of (ramdisk_seek rd_reading 2 (- 2) SEEK_END)) 2) = 3"
    using s [of "- 2" SEEK_END] p
    by (auto simp: Let_def SEEK_SET_def SEEK_CUR_def SEEK_END_def)
  from v n' p a b c d e f g i j k show ?thesis by blast
qed


section \<open>Read\<close>

text \<open>
  C10. A read through a valid file descriptor whose cursor is inside the file copies
  \<open>min bytes (size - cursor)\<close> bytes from the cursor, returns that count and advances
  the cursor by it, whatever open mode \<open>m\<close> is stored in the descriptor: neither
  \<open>omode\<close> nor the node's lock is consulted. The witness reads through handle 1 of the
  history, which was opened with \<open>O_WRONLY | O_TRUNC\<close>.
\<close>

theorem read_ignores_open_mode:
  assumes valid: "\<not> ramdisk_fd_invalid st h" "\<not> dir (fd_at st h)"
    and node: "node_at st (filep (fd_at st h)) = Some nf"
    and blk: "data nf = Block blk" "fsize nf \<le> length blk"
    and cur: "ptr (fd_at st h) \<le> fsize nf"
    and rng: "fsize nf < 2 ^ 31" "bytes < 2 ^ 31"
  shows "let fd = (fd_at st h)\<lparr>omode := m\<rparr>; n = min bytes (fsize nf - ptr fd)
         in ramdisk_read (set_fd h fd st) h bytes =
              Inr ((int n, take n (drop (ptr fd) blk)), set_fd h (fd\<lparr>ptr := ptr fd + n\<rparr>) st)"
proof -
  have r: "0 < h \<and> h \<le> length (fds st)" using valid(1) by (rule fd_valid_range)
  have s: "n < 2 ^ 31 \<Longrightarrow> s32 n = int n" for n
    by (simp add: s32_def)
  have w: "n < 2 ^ 32 \<Longrightarrow> wrap32 n = n" for n
    by (simp add: wrap32_def)
  have u: "u32 (int (fsize nf) - int (ptr (fd_at st h))) = fsize nf - ptr (fd_at st h)"
    using cur rng by (simp add: u32_def nat_diff_distrib' flip: of_nat_diff)
  show ?thesis
    using valid node blk cur rng r
    apply (simp add: ramdisk_read_def Let_def ramdisk_fd_invalid_def fd_at_set_fd load_bytes_def u w s)
    apply (auto simp: min_def s w set_fd_def split: nat.splits)
    done
qed

theorem read_ignores_open_mode_witness:
  "\<not> ramdisk_fd_invalid rd_written 1 \<and> \<not> dir (fd_at rd_written 1)
   \<and> omode (fd_at rd_written 1) = (O_WRONLY OR O_TRUNC)
   \<and> returned (ramdisk_read rd_written 1 10) = Inr (0, [])
   \<and> returned (and_then (ramdisk_seek rd_written 1 0 SEEK_SET)
         (\<lambda>pos st. ramdisk_read st 1 10)) = Inr (5, [1, 2, 3, 4, 5])
   \<and> returned (ramdisk_read
         (set_fd 1 ((fd_at rd_written 1)\<lparr>omode := O_WRONLY OR O_APPEND\<rparr>) rd_written) 1 10)
       = Inr (0, [])"
proof -
  let ?nf = "\<lparr>name = ''a'', fsize = 5, isdir = False, openfor = 2, usage = 1,
      data = Block ([1, 2, 3, 4, 5] @ replicate 1019 0), datasize = 1024\<rparr>"
  let ?st = "set_fd 1 ((fd_at rd_written 1)\<lparr>ptr := 0\<rparr>) rd_written"
  have v: "\<not> ramdisk_fd_invalid rd_written 1" "\<not> dir (fd_at rd_written 1)"
    by (simp_all add: rd_written_eq ramdisk_fd_invalid_def fd_at_def)
  have n: "node_at rd_written (filep (fd_at rd_written 1)) = Some ?nf"
    by (simp add: rd_written_eq fd_at_def node_at_def)
  have p: "ptr (fd_at rd_written 1) = 5" "omode (fd_at rd_written 1) = (O_WRONLY OR O_TRUNC)"
    by (simp_all add: rd_written_eq fd_at_def const_defs)
  have same: "set_fd 1 ((fd_at rd_written 1)\<lparr>omode := O_WRONLY OR O_TRUNC\<rparr>) rd_written = rd_written"
    by (simp add: rd_written_eq fd_at_def set_fd_def const_defs)
  have a: "returned (ramdisk_read rd_written 1 10) = Inr (0, [])"
    using read_ignores_open_mode [OF v n, of "[1, 2, 3, 4, 5] @ replicate 1019 0" 10
        "O_WRONLY OR O_TRUNC", unfolded Let_def same] p
    by (simp add: returned_def)
  have b: "returned (ramdisk_read
         (set_fd 1 ((fd_at rd_written 1)\<lparr>omode := O_WRONLY OR O_APPEND\<rparr>) rd_written) 1 10)
       = Inr (0, [])"
    using read_ignores_open_mode [OF v n, of "[1, 2, 3, 4, 5] @ replicate 1019 0" 10 "O_WRONLY OR O_APPEND"] p
    by (simp add: Let_def returned_def)
  have sk: "ramdisk_seek rd_written 1 0 SEEK_SET = Inr (0, ?st)"
    using v n by (simp add: ramdisk_seek_def seek_switch_def Let_def int_defs)
  have v': "\<not> ramdisk_fd_invalid ?st 1" "\<not> dir (fd_at ?st 1)"
    "node_at ?st (filep (fd_at ?st 1)) = Some ?nf" "ptr (fd_at ?st 1) = 0"
    using v n fd_valid_range [OF v(1)] by (simp_all add: ramdisk_fd_invalid_def fd_at_set_fd)
  have same': "set_fd 1 ((fd_at ?st 1)\<lparr>omode := O_WRONLY OR O_TRUNC\<rparr>) ?st = ?st"
    by (simp add: rd_written_eq fd_at_def set_fd_def const_defs)
  have c: "returned (and_then (ramdisk_seek rd_written 1 0 SEEK_SET)
         (\<lambda>pos st. ramdisk_read st 1 10)) = Inr (5, [1, 2, 3, 4, 5])"
    unfolding sk
    using read_ignores_open_mode [OF v'(1,2,3), of "[1, 2, 3, 4, 5] @ replicate 1019 0" 10
        "O_WRONLY OR O_TRUNC", unfolded Let_def same'] v'(4)
    by (simp add: returned_def and_then_def)
  from v p(2) a c b show ?thesis by blast
qed

section \<open>Readers share a file\<close>

text \<open>
  C9. \<open>rd_inv\<close> says that every live descriptor holds one unit of its node's usage
  count (the count of a node is the number of live descriptors on it) and that the lock
  of a node is \<open>OPENFOR_NOTHING\<close> exactly when its count is zero. Every \<open>ramdisk_open\<close>
  and every \<open>ramdisk_close\<close> that returns keeps \<open>rd_inv\<close>. In a state with \<open>rd_inv\<close>
  where allocations succeed and the path \<open>p\<close> resolves to an unopened file \<open>f\<close>: two
  read-only opens of \<open>p\<close> both succeed, with different handles, and leave the count at 2
  and the lock at \<open>OPENFOR_READ\<close>; closing the first leaves the count at 1 and the lock
  still at \<open>OPENFOR_READ\<close>; then a further read-only open succeeds while an open for
  writing returns \<open>NULL\<close>; closing the second descriptor brings the count to 0 and the
  lock back to \<open>OPENFOR_NOTHING\<close>.
\<close>

theorem reader_sharing:
  assumes inv: "rd_inv st"
  shows "(\<forall>q m h s. ramdisk_open st q m = Inr (h, s) \<longrightarrow> rd_inv s)
    \<and> (\<forall>h rc s. ramdisk_close st h = Inr (rc, s) \<longrightarrow> rd_inv s)
    \<and> (heap_plan st = [] \<and> resolves st (skip_slash p) f
         \<and> map_option usage (node_at st f) = Some 0 \<longrightarrow>
        (\<exists>h1 st1 h2 st2 st3 h3 st4 st5 st6.
          ramdisk_open st p O_RDONLY = Inr (h1, st1) \<and> h1 \<noteq> 0
        \<and> ramdisk_open st1 p O_RDONLY = Inr (h2, st2) \<and> h2 \<noteq> 0 \<and> h2 \<noteq> h1
        \<and> map_option usage (node_at st2 f) = Some 2 \<and> holders st2 f = 2
        \<and> map_option openfor (node_at st2 f) = Some OPENFOR_READ
        \<and> ramdisk_close st2 h1 = Inr (0, st3)
        \<and> map_option usage (node_at st3 f) = Some 1 \<and> holders st3 f = 1
        \<and> map_option openfor (node_at st3 f) = Some OPENFOR_READ
        \<and> ramdisk_open st3 p O_RDONLY = Inr (h3, st4) \<and> h3 \<noteq> 0
        \<and> ramdisk_open st3 p O_WRONLY = Inr (0, st5)
        \<and> ramdisk_close st3 h2 = Inr (0, st6)
        \<and> map_option usage (node_at st6 f) = Some 0 \<and> holders st6 f = 0
        \<and> map_option openfor (node_at st6 f) = Some OPENFOR_NOTHING
        \<and> rd_inv st1 \<and> rd_inv st2 \<and> rd_inv st3 \<and> rd_inv st4 \<and> rd_inv st5 \<and> rd_inv st6))"
proof (intro conjI allI impI)
  fix q m h s assume "ramdisk_open st q m = Inr (h, s)"
  with inv show "rd_inv s" by (rule open_inv)
next
  fix h rc s assume "ramdisk_close st h = Inr (rc, s)"
  with inv show "rd_inv s" by (rule close_inv)
next
  assume a: "heap_plan st = [] \<and> resolves st (skip_slash p) f
         \<and> map_option usage (node_at st f) = Some 0"
  then obtain nf where "node_at st f = Some nf" "usage nf = 0" by auto
  with a inv show "\<exists>h1 st1 h2 st2 st3 h3 st4 st5 st6.
          ramdisk_open st p O_RDONLY = Inr (h1, st1) \<and> h1 \<noteq> 0
        \<and> ramdisk_open st1 p O_RDONLY = Inr (h2, st2) \<and> h2 \<noteq> 0 \<and> h2 \<noteq> h1
        \<and> map_option usage (node_at st2 f) = Some 2 \<and> holders st2 f = 2
        \<and> map_option openfor (node_at st2 f) = Some OPENFOR_READ
        \<and> ramdisk_close st2 h1 = Inr (0, st3)
        \<and> map_option usage (node_at st3 f) = Some 1 \<and> holders st3 f = 1
        \<and> map_option openfor (node_at st3 f) = Some OPENFOR_READ
        \<and> ramdisk_open st3 p O_RDONLY = Inr (h3, st4) \<and> h3 \<noteq> 0
        \<and> ramdisk_open st3 p O_WRONLY = Inr (0, st5)
        \<and> ramdisk_close st3 h2 = Inr (0, st6)
        \<and> map_option usage (node_at st6 f) = Some 0 \<and> holders st6 f = 0
        \<and> map_option openfor (node_at st6 f) = Some OPENFOR_NOTHING
        \<and> rd_inv st1 \<and> rd_inv st2 \<and> rd_inv st3 \<and> rd_inv st4 \<and> rd_inv st5 \<and> rd_inv st6"
    by (intro reader_sharing_run) auto
qed

theorem reader_sharing_witness:
  "rd_inv rd_fresh \<and> rd_inv rd_closed \<and> rd_inv rd_reading
   \<and> heap_plan rd_closed = [] \<and> resolves rd_closed (skip_slash ''/a'') 2
   \<and> map_option usage (node_at rd_closed 2) = Some 0
   \<and> (\<exists>h1 st1 h2 st2 st3 h3 st4 st5 st6.
          ramdisk_open rd_closed ''/a'' O_RDONLY = Inr (h1, st1) \<and> h1 \<noteq> 0
        \<and> ramdisk_open st1 ''/a'' O_RDONLY = Inr (h2, st2) \<and> h2 \<noteq> 0 \<and> h2 \<noteq> h1
        \<and> map_option usage (node_at st2 2) = Some 2 \<and> holders st2 2 = 2
        \<and> map_option openfor (node_at st2 2) = Some OPENFOR_READ
        \<and> ramdisk_close st2 h1 = Inr (0, st3)
        \<and> map_option usage (node_at st3 2) = Some 1 \<and> holders st3 2 = 1
        \<and> map_option openfor (node_at st3 2) = Some OPENFOR_READ
        \<and> ramdisk_open st3 ''/a'' O_RDONLY = Inr (h3, st4) \<and> h3 \<noteq> 0
        \<and> ramdisk_open st3 ''/a'' O_WRONLY = Inr (0, st5)
        \<and> ramdisk_close st3 h2 = Inr (0, st6)
        \<and> map_option usage (node_at st6 2) = Some 0 \<and> holders st6 2 = 0
        \<and> map_option openfor (node_at st6 2) = Some OPENFOR_NOTHING
        \<and> rd_inv st1 \<and> rd_inv st2 \<and> rd_inv st3 \<and> rd_inv st4 \<and> rd_inv st5 \<and> rd_inv st6)"
proof -
  have i0: "rd_inv rd_fresh"
    by (simp add: rd_inv_def node_ok_def holders_def rd_fresh_eq node_at_def fd_at_def const_defs)
  have i: "rd_inv rd_closed"
    by (simp add: rd_inv_def node_ok_def holders_def rd_closed_eq node_at_def fd_at_def const_defs)
  have m: "heap_plan rd_closed = []" by (simp add: rd_closed_eq)
  have r: "resolves rd_closed (skip_slash ''/a'') 2"
    by (simp add: resolves_def rd_closed_eq skip_slash_def path_defs node_at_def)
  have u: "map_option usage (node_at rd_closed 2) = Some 0"
    by (simp add: rd_closed_eq node_at_def)
  note t = reader_sharing [OF i, of "''/a''" 2]
  from t open_closed_eq have j: "rd_inv rd_reading" unfolding rd_reading_eq by blast
  from t m r u have "\<exists>h1 st1 h2 st2 st3 h3 st4 st5 st6.
          ramdisk_open rd_closed ''/a'' O_RDONLY = Inr (h1, st1) \<and> h1 \<noteq> 0
        \<and> ramdisk_open st1 ''/a'' O_RDONLY = Inr (h2, st2) \<and> h2 \<noteq> 0 \<and> h2 \<noteq> h1
        \<and> map_option usage (node_at st2 2) = Some 2 \<and> holders st2 2 = 2
        \<and> map_option openfor (node_at st2 2) = Some OPENFOR_READ
        \<and> ramdisk_close st2 h1 = Inr (0, st3)
        \<and> map_option usage (node_at st3 2) = Some 1 \<and> holders st3 2 = 1
        \<and> map_option openfor (node_at st3 2) = Some OPENFOR_READ
        \<and> ramdisk_open st3 ''/a'' O_RDONLY = Inr (h3, st4) \<and> h3 \<noteq> 0
        \<and> ramdisk_open st3 ''/a'' O_WRONLY = Inr (0, st5)
        \<and> ramdisk_close st3 h2 = Inr (0, st6)
        \<and> map_option usage (node_at st6 2) = Some 0 \<and> holders st6 2 = 0
        \<and> map_option openfor (node_at st6 2) = Some OPENFOR_NOTHING
        \<and> rd_inv st1 \<and> rd_inv st2 \<and> rd_inv st3 \<and> rd_inv st4 \<and> rd_inv st5 \<and> rd_inv st6" by blast
  with i0 i j m r u show ?thesis by blast
qed

section \<open>Round trip\<close>

text \<open>
  C1. In a state with \<open>rd_inv\<close> whose only directory is the root and where allocations
  succeed, let \<open>ramdisk_open\<close> of the path \<open>p\<close> with \<open>O_WRONLY | O_TRUNC\<close> return a
  handle \<open>h\<close> (the file existed unopened, or was created). Then writing \<open>bytes\<close> through
  \<open>h\<close> returns their number, closing \<open>h\<close> returns 0, opening \<open>p\<close> read-only returns a
  handle \<open>h2\<close>, reading \<open>n\<close> bytes through \<open>h2\<close>, for any \<open>n\<close> that is at least the number
  of bytes written, returns exactly \<open>bytes\<close>, and \<open>ramdisk_total\<close> of \<open>h2\<close> is the number
  of bytes written. The sizes are below the 32-bit limits of the code.
\<close>

theorem write_close_read_roundtrip:
  assumes inv: "rd_inv st" and flat: "rd_flat st" and mem: "heap_plan st = []"
    and op: "ramdisk_open st p (O_WRONLY OR O_TRUNC) = Inr (h, st1)" "h \<noteq> 0"
    and len: "length bytes + 4 * rd_blksize < 2 ^ 31" and n: "length bytes \<le> n" "n < 2 ^ 31"
  shows "\<exists>st2 st3 h2 st4.
      ramdisk_write st1 h bytes = Inr (int (length bytes), st2)
    \<and> ramdisk_close st2 h = Inr (0, st3)
    \<and> ramdisk_open st3 p O_RDONLY = Inr (h2, st4) \<and> h2 \<noteq> 0
    \<and> returned (ramdisk_read st4 h2 n) = Inr (int (length bytes), bytes)
    \<and> returned (ramdisk_total st4 h2) = Inr (length bytes)"
proof -
  from open_wtrunc_inv [OF inv flat mem op] obtain sl f nf where
    a: "resolves sl (skip_slash p) f" "node_at sl f = Some nf"
       "openfor nf = OPENFOR_NOTHING" "usage nf = 0" "heap_plan sl = []"
    and o: "open_node sl f (O_WRONLY OR O_TRUNC) = Inr (h, st1)"
    by blast
  from roundtrip_core [OF a len n] o show ?thesis by auto
qed

theorem write_close_read_roundtrip_witness:
  "rd_inv rd_fresh \<and> rd_flat rd_fresh \<and> heap_plan rd_fresh = []
   \<and> ramdisk_open rd_fresh ''/a'' (O_WRONLY OR O_TRUNC) = Inr (1, rd_writing)
   \<and> (\<exists>st2 st3 h2 st4.
        ramdisk_write rd_writing 1 [1, 2, 3, 4, 5] = Inr (5, st2)
      \<and> ramdisk_close st2 1 = Inr (0, st3)
      \<and> ramdisk_open st3 ''/a'' O_RDONLY = Inr (h2, st4) \<and> h2 \<noteq> 0
      \<and> returned (ramdisk_read st4 h2 100) = Inr (5, [1, 2, 3, 4, 5])
      \<and> returned (ramdisk_total st4 h2) = Inr 5)"
proof -
  have i: "rd_inv rd_fresh"
    by (simp add: rd_inv_def node_ok_def holders_def rd_fresh_eq node_at_def fd_at_def const_defs)
  have f: "rd_flat rd_fresh" by (simp add: rd_flat_def rd_fresh_eq node_at_def)
  have m: "heap_plan rd_fresh = []" by (simp add: rd_fresh_eq)
  have o: "ramdisk_open rd_fresh ''/a'' (O_WRONLY OR O_TRUNC) = Inr (1, rd_writing)"
    unfolding open_fresh_eq rd_writing_eq by simp
  have h: "(1::nat) \<noteq> 0" by simp
  have len: "length [1, 2, 3, 4, 5::byte] + 4 * rd_blksize < 2 ^ 31"
    by (simp add: rd_blksize_def)
  have n: "length [1, 2, 3, 4, 5::byte] \<le> 100" "(100::nat) < 2 ^ 31" by simp_all
  have e: "length [1, 2, 3, 4, 5::byte] = 5" "int 5 = 5" by simp_all
  from write_close_read_roundtrip [OF i f m o h len n, unfolded e] i f m o
  show ?thesis by blast
qed

end
